theory Spec2Isabelle
  imports Main "HOL-Library.Word" "HOL-Library.Sublist"
begin

section \<open>JavaScript strings\<close>

text \<open>
  A JavaScript string is a sequence of UTF-16 code units. The regular expressions of
  \<^verbatim>\<open>lib/converter.js\<close> carry no \<^verbatim>\<open>u\<close> flag, so they work code unit by code unit.
  \<open>js\<close> writes an ASCII literal as such a sequence.
\<close>

type_synonym jsstring = "16 word list"

definition js :: "string \<Rightarrow> jsstring" where
  "js s = map of_char s"

section \<open>Content cleaning: \<^verbatim>\<open>cleanMarkdownContent\<close>\<close>

text \<open>
  \<^verbatim>\<open>rawContent.replace(/[\u200B-\u200D\uFEFF]/g, '')\<close>: every code unit of the class is
  deleted.
\<close>

definition isZeroWidth :: "16 word \<Rightarrow> bool" where
  "isZeroWidth c \<longleftrightarrow> (0x200B \<le> c \<and> c \<le> 0x200D) \<or> c = 0xFEFF"

definition removeZeroWidth :: "jsstring \<Rightarrow> jsstring" where
  "removeZeroWidth s = filter (\<lambda>c. \<not> isZeroWidth c) s"

text \<open>
  \<^verbatim>\<open>cleanContent.replace(/ & /g, ' &amp; ')\<close>: a global replacement scans from the left
  and resumes after each match, so the matches replaced do not overlap.
\<close>

fun escapeAmpersands :: "jsstring \<Rightarrow> jsstring" where
  "escapeAmpersands (a # b # c # cs) =
     (if a = 0x20 \<and> b = 0x26 \<and> c = 0x20
      then js '' &amp; '' @ escapeAmpersands cs
      else a # escapeAmpersands (b # c # cs))"
| "escapeAmpersands cs = cs"

text \<open>
  \<^verbatim>\<open>cleanContent.replace(/^---[\s\S]*?---/, '')\<close>: without the \<^verbatim>\<open>m\<close> flag \<^verbatim>\<open>^\<close> is the start
  of the text; \<^verbatim>\<open>[\s\S]*?\<close> takes as few code units as possible (line breaks included),
  so the match ends with the first \<^verbatim>\<open>---\<close> found from index 3 on. Only this one match is
  deleted; when there is none the text is returned as it is.
  \<open>afterDashes t\<close> is the text that follows the first \<^verbatim>\<open>---\<close> of \<open>t\<close>.
\<close>

fun afterDashes :: "jsstring \<Rightarrow> jsstring option" where
  "afterDashes (a # b # c # cs) =
     (if a = 0x2D \<and> b = 0x2D \<and> c = 0x2D then Some cs else afterDashes (b # c # cs))"
| "afterDashes cs = None"

definition removeFrontMatter :: "jsstring \<Rightarrow> jsstring" where
  "removeFrontMatter s =
     (if take 3 s = js ''---''
      then (case afterDashes (drop 3 s) of Some rest \<Rightarrow> rest | None \<Rightarrow> s)
      else s)"

definition cleanMarkdownContent :: "jsstring \<Rightarrow> jsstring" where
  "cleanMarkdownContent rawContent =
     (let cleanContent = removeZeroWidth rawContent;
          cleanContent = escapeAmpersands cleanContent;
          cleanContent = removeFrontMatter cleanContent
      in cleanContent)"

section \<open>JavaScript built-ins used by the heading pass\<close>

text \<open>
  \<^verbatim>\<open>String.prototype.trim\<close> strips the WhiteSpace and LineTerminator code points of
  ECMAScript from both ends.
\<close>

definition isWhiteSpace :: "16 word \<Rightarrow> bool" where
  "isWhiteSpace c \<longleftrightarrow>
     (0x09 \<le> c \<and> c \<le> 0x0D) \<or> c = 0x20 \<or> c = 0xA0 \<or> c = 0x1680 \<or>
     (0x2000 \<le> c \<and> c \<le> 0x200A) \<or> c = 0x2028 \<or> c = 0x2029 \<or> c = 0x202F \<or>
     c = 0x205F \<or> c = 0x3000 \<or> c = 0xFEFF"

definition trim :: "jsstring \<Rightarrow> jsstring" where
  "trim s = rev (dropWhile isWhiteSpace (rev (dropWhile isWhiteSpace s)))"

text \<open>
  \<^verbatim>\<open>String.prototype.toLowerCase\<close>: on a text of ASCII code units only it maps
  \<^verbatim>\<open>A-Z\<close> to \<^verbatim>\<open>a-z\<close> and keeps the rest. For any other text the result comes from the
  Unicode case tables of the engine, which are not part of this repository: they are the
  parameter \<open>unicodeLower\<close>.
\<close>

definition asciiLower :: "16 word \<Rightarrow> 16 word" where
  "asciiLower c = (if 0x41 \<le> c \<and> c \<le> 0x5A then c + 0x20 else c)"

definition toLowerCase :: "(jsstring \<Rightarrow> jsstring) \<Rightarrow> jsstring \<Rightarrow> jsstring" where
  "toLowerCase unicodeLower s =
     (if list_all (\<lambda>c. c < 0x80) s then map asciiLower s else unicodeLower s)"

text \<open>
  A number inside a template literal is written in decimal. Heading depths are integers.
\<close>

function digitsOf :: "nat \<Rightarrow> jsstring" where
  "digitsOf n = (if n < 10 then [0x30 + of_nat n]
                 else digitsOf (n div 10) @ [0x30 + of_nat (n mod 10)])"
  by pat_completeness auto
termination
  by (relation "measure id") auto

declare digitsOf.simps [simp del]

definition numberToString :: "int \<Rightarrow> jsstring" where
  "numberToString i = (if i < 0 then 0x2D # digitsOf (nat (- i)) else digitsOf (nat i))"

text \<open>
  A \<^verbatim>\<open>RegExp\<close> object, as far as \<^verbatim>\<open>test\<close> needs it. \<open>search r i s\<close> is the matcher
  of the pattern: the end index of the first match found in \<open>s\<close> when the search starts
  at index \<open>i\<close>. \<open>advancing\<close> says that the \<^verbatim>\<open>g\<close> or \<^verbatim>\<open>y\<close> flag is set: only then
  \<^verbatim>\<open>test\<close> starts at \<^verbatim>\<open>lastIndex\<close> and stores a new \<^verbatim>\<open>lastIndex\<close> in the object.
\<close>

record regexp =
  search :: "nat \<Rightarrow> jsstring \<Rightarrow> nat option"
  advancing :: bool
  lastIndex :: nat

definition test :: "regexp \<Rightarrow> jsstring \<Rightarrow> bool \<times> regexp" where
  "test r s =
     (if advancing r then
        (if length s < lastIndex r then (False, r\<lparr>lastIndex := 0\<rparr>)
         else (case search r (lastIndex r) s of
                 None \<Rightarrow> (False, r\<lparr>lastIndex := 0\<rparr>)
               | Some e \<Rightarrow> (True, r\<lparr>lastIndex := e\<rparr>)))
      else (case search r 0 s of None \<Rightarrow> (False, r) | Some e \<Rightarrow> (True, r)))"

text \<open>
  The default filter \<^verbatim>\<open>/Topic|Summary|Section|Detailed/i\<close>. Under the \<^verbatim>\<open>i\<close> flag
  (and no \<^verbatim>\<open>u\<close> flag) a code unit matches an ASCII letter of the pattern when it is
  that letter in either case: the canonical form of a code unit from \<^verbatim>\<open>0x80\<close> on is
  never an ASCII code unit.
\<close>

definition startsWithIgnoreCase :: "jsstring \<Rightarrow> jsstring \<Rightarrow> bool" where
  "startsWithIgnoreCase w s \<longleftrightarrow>
     length w \<le> length s \<and> map asciiLower (take (length w) s) = map asciiLower w"

fun firstAlternative :: "jsstring list \<Rightarrow> jsstring \<Rightarrow> nat option" where
  "firstAlternative [] s = None"
| "firstAlternative (w # ws) s =
     (if startsWithIgnoreCase w s then Some (length w) else firstAlternative ws s)"

fun searchAlternatives :: "jsstring list \<Rightarrow> nat \<Rightarrow> jsstring \<Rightarrow> nat option" where
  "searchAlternatives ws pos [] = map_option (\<lambda>n. pos + n) (firstAlternative ws [])"
| "searchAlternatives ws pos (c # cs) =
     (case firstAlternative ws (c # cs) of
        Some n \<Rightarrow> Some (pos + n)
      | None \<Rightarrow> searchAlternatives ws (Suc pos) cs)"

definition defaultTocFilter :: regexp where
  "defaultTocFilter =
     \<lparr> search = (\<lambda>i s. searchAlternatives
                    [js ''Topic'', js ''Summary'', js ''Section'', js ''Detailed''] i (drop i s)),
       advancing = False,
       lastIndex = 0 \<rparr>"

section \<open>Heading extraction: \<^verbatim>\<open>extractHeadings\<close>\<close>

text \<open>
  A token of the lexer: \<^verbatim>\<open>type\<close>, \<^verbatim>\<open>depth\<close> and \<^verbatim>\<open>text\<close> are the properties
  \<^verbatim>\<open>extractHeadings\<close> reads and writes; every other property (\<^verbatim>\<open>raw\<close>, the inline
  child tokens, ...) lives in the extension part of the record. The depth of a token
  that is no heading is never read (\<^verbatim>\<open>&&\<close> evaluates its right side only for a
  heading). The elements of the token array are taken to be distinct objects, as the
  lexer produces them, so the array is a list of values.
\<close>

record token =
  tokenType :: jsstring
  tokenDepth :: int
  tokenText :: jsstring

record TocEntry =
  anchor :: jsstring
  level :: int
  entryText :: jsstring

record extractOptions =
  tocFilter :: "regexp option"
  maxDepth :: "int option"

text \<open>\<^verbatim>\<open>/\*\*/g\<close> replaced by the empty text, then \<^verbatim>\<open>/\*/g\<close> replaced by the empty text.\<close>

fun removeDoubleStars :: "jsstring \<Rightarrow> jsstring" where
  "removeDoubleStars (a # b # cs) =
     (if a = 0x2A \<and> b = 0x2A then removeDoubleStars cs
      else a # removeDoubleStars (b # cs))"
| "removeDoubleStars cs = cs"

definition removeStars :: "jsstring \<Rightarrow> jsstring" where
  "removeStars s = filter (\<lambda>c. c \<noteq> 0x2A) s"

text \<open>
  \<^verbatim>\<open>/[^\w]+/g\<close> replaced by \<^verbatim>\<open>-\<close>: \<^verbatim>\<open>\w\<close> is \<^verbatim>\<open>[A-Za-z0-9_]\<close>, and \<^verbatim>\<open>+\<close> takes the
  whole run of other code units.
\<close>

definition isWordChar :: "16 word \<Rightarrow> bool" where
  "isWordChar c \<longleftrightarrow>
     (0x61 \<le> c \<and> c \<le> 0x7A) \<or> (0x41 \<le> c \<and> c \<le> 0x5A) \<or> (0x30 \<le> c \<and> c \<le> 0x39) \<or> c = 0x5F"

function replaceNonWordRuns :: "jsstring \<Rightarrow> jsstring" where
  "replaceNonWordRuns [] = []"
| "replaceNonWordRuns (c # cs) =
     (if isWordChar c then c # replaceNonWordRuns cs
      else 0x2D # replaceNonWordRuns (dropWhile (\<lambda>d. \<not> isWordChar d) cs))"
  by pat_completeness auto
termination
  by (relation "measure length") (auto simp: le_imp_less_Suc length_dropWhile_le)

text \<open>
  \<^verbatim>\<open>const cleanText = token.text.replace(/\*\*/g, '').replace(/\*/g, '').trim();\<close> and
  \<^verbatim>\<open>const anchor = cleanText.toLowerCase().replace(/[^\w]+/g, '-');\<close>
\<close>

definition cleanTextOf :: "jsstring \<Rightarrow> jsstring" where
  "cleanTextOf s = trim (removeStars (removeDoubleStars s))"

definition anchorOf :: "(jsstring \<Rightarrow> jsstring) \<Rightarrow> jsstring \<Rightarrow> jsstring" where
  "anchorOf unicodeLower cleanText = replaceNonWordRuns (toLowerCase unicodeLower cleanText)"

text \<open>The template literal assigned to \<^verbatim>\<open>token.text\<close>.\<close>

definition headingHtml :: "int \<Rightarrow> jsstring \<Rightarrow> jsstring \<Rightarrow> jsstring" where
  \<open>headingHtml d anchor' cleanText =
     js ''<h'' @ numberToString d @ js '' id="'' @ anchor' @ js ''">'' @ cleanText @
     js ''</h'' @ numberToString d @ js ''>''\<close>

text \<open>
  The callback of \<^verbatim>\<open>tokens.forEach\<close>. It changes the token in place, may push one
  entry to \<^verbatim>\<open>toc\<close>, and \<^verbatim>\<open>test\<close> may change the filter object: the three are returned.
\<close>

definition visitToken ::
  "(jsstring \<Rightarrow> jsstring) \<Rightarrow> int \<Rightarrow> 'a token_scheme \<Rightarrow> TocEntry list \<Rightarrow> regexp
     \<Rightarrow> 'a token_scheme \<times> TocEntry list \<times> regexp" where
  "visitToken unicodeLower maxDepth' token toc tocFilter' =
     (if tokenType token = js ''heading'' \<and> tokenDepth token \<le> maxDepth' then
        (let cleanText = cleanTextOf (tokenText token);
             anchor' = anchorOf unicodeLower cleanText;
             (isImportant, tocFilter'') = test tocFilter' cleanText;
             toc' = (if isImportant
                     then toc @ [\<lparr> anchor = anchor', level = tokenDepth token,
                                  entryText = cleanText \<rparr>]
                     else toc)
         in (token\<lparr> tokenType := js ''html'',
                    tokenText := headingHtml (tokenDepth token) anchor' cleanText \<rparr>,
             toc', tocFilter''))
      else (token, toc, tocFilter'))"

fun forEachToken ::
  "(jsstring \<Rightarrow> jsstring) \<Rightarrow> int \<Rightarrow> 'a token_scheme list \<Rightarrow> TocEntry list \<Rightarrow> regexp
     \<Rightarrow> 'a token_scheme list \<times> TocEntry list \<times> regexp" where
  "forEachToken unicodeLower maxDepth' [] toc tocFilter' = ([], toc, tocFilter')"
| "forEachToken unicodeLower maxDepth' (token # tokens) toc tocFilter' =
     (case visitToken unicodeLower maxDepth' token toc tocFilter' of
        (token', toc', tocFilter'') \<Rightarrow>
          (case forEachToken unicodeLower maxDepth' tokens toc' tocFilter'' of
             (tokens', toc'', tocFilter''') \<Rightarrow> (token' # tokens', toc'', tocFilter''')))"

text \<open>
  \<^verbatim>\<open>extractHeadings(tokens, options)\<close> returns \<^verbatim>\<open>toc\<close>; the model returns with it the
  token array and the filter object as the call leaves them. The destructuring defaults
  apply to a property that is absent.
\<close>

definition tocFilterOf :: "extractOptions \<Rightarrow> regexp" where
  "tocFilterOf options = (case tocFilter options of None \<Rightarrow> defaultTocFilter | Some r \<Rightarrow> r)"

definition maxDepthOf :: "extractOptions \<Rightarrow> int" where
  "maxDepthOf options = (case maxDepth options of None \<Rightarrow> 4 | Some d \<Rightarrow> d)"

definition extractHeadings ::
  "(jsstring \<Rightarrow> jsstring) \<Rightarrow> 'a token_scheme list \<Rightarrow> extractOptions
     \<Rightarrow> TocEntry list \<times> 'a token_scheme list \<times> regexp" where
  "extractHeadings unicodeLower tokens options =
     (case forEachToken unicodeLower (maxDepthOf options) tokens [] (tocFilterOf options) of
        (tokens', toc, tocFilter') \<Rightarrow> (toc, tokens', tocFilter'))"

section \<open>Table of contents: \<^verbatim>\<open>generateTocHtml\<close>\<close>

text \<open>
  The text appended for one entry, and the whole fragment. The parameter default
  \<^verbatim>\<open>title = 'Table of Contents'\<close> applies when the argument is absent.
\<close>

definition tocEntryHtml :: "TocEntry \<Rightarrow> jsstring" where
  \<open>tocEntryHtml entry =
     (let indentClass = (if level entry > 3 then js ''toc-indent'' else [])
      in js ''<li class="'' @ indentClass @ js ''"><a href="#'' @ anchor entry @ js ''">'' @
         entryText entry @ js ''</a></li>'')\<close>

definition generateTocHtml :: "TocEntry list \<Rightarrow> jsstring option \<Rightarrow> jsstring" where
  \<open>generateTocHtml toc titleArg =
     (let title = (case titleArg of None \<Rightarrow> js ''Table of Contents'' | Some t \<Rightarrow> t);
          tocHtml = js ''\<newline>    <div class="toc">\<newline>        <h1>'' @ title @
                    js ''</h1>\<newline>        <ul>\<newline>    '';
          tocHtml = foldl (\<lambda>tocHtml entry. tocHtml @ tocEntryHtml entry) tocHtml toc;
          tocHtml = tocHtml @ js ''</ul></div><div class="page-break"></div>''
      in tocHtml)\<close>

section \<open>Document assembly: \<^verbatim>\<open>generateFullHtml\<close>\<close>

text \<open>
  The constants that \<^verbatim>\<open>lib/converter.js\<close> imports from \<^verbatim>\<open>./styles\<close>. The functions
  below take them as a parameter.
\<close>

record styles =
  defaultStyles :: jsstring
  footerTemplate :: jsstring
  headerTemplate :: jsstring
  highlightTheme :: jsstring
  mathJaxUrl :: jsstring

text \<open>
  The template literal of \<^verbatim>\<open>generateFullHtml\<close>. The code units \<^verbatim>\<open>0x27\<close> and \<^verbatim>\<open>0x5C\<close>
  are the single quote and the backslash. The second argument of the source,
  \<^verbatim>\<open>options\<close>, only carries \<^verbatim>\<open>customStyles\<close>, with the empty text as default.
\<close>

definition generateFullHtml ::
  "styles \<Rightarrow> jsstring \<Rightarrow> jsstring \<Rightarrow> jsstring option \<Rightarrow> jsstring" where
  \<open>generateFullHtml st tocHtml bodyContent customStylesArg =
     (let customStyles = (case customStylesArg of None \<Rightarrow> [] | Some s \<Rightarrow> s)
      in js ''\<newline>    <!DOCTYPE html>\<newline>    <html>\<newline>    <head>\<newline>'' @
         js ''        <meta charset="UTF-8">\<newline>'' @
         js ''        <link rel="stylesheet" href="'' @ highlightTheme st @ js ''">\<newline>'' @
         js ''        <script>\<newline>        window.MathJax = {\<newline>'' @
         js ''            tex: { inlineMath: [['$', '$'], ['' @ [0x27, 0x5C, 0x5C] @
         js ''(', '' @ [0x27, 0x5C, 0x5C] @ js '')']] },\<newline>'' @
         js ''            svg: { fontCache: 'global' }\<newline>        };\<newline>'' @
         js ''        </script>\<newline>'' @
         js ''        <script id="MathJax-script" async src="'' @ mathJaxUrl st @
         js ''"></script>\<newline>        <style>\<newline>            '' @ defaultStyles st @
         js ''\<newline>            '' @ customStyles @
         js ''\<newline>        </style>\<newline>    </head>\<newline>    <body>\<newline>        '' @ tocHtml @
         js ''\<newline>        '' @ bodyContent @
         js ''\<newline>    </body>\<newline>    </html>\<newline>    '')\<close>

section \<open>The conversion: \<^verbatim>\<open>convertMdToPdf\<close>\<close>

text \<open>
  A thrown value is an \<^verbatim>\<open>Error\<close> with its message. A call that may throw returns
  \<open>error + 'a\<close>, with \<open>Inl\<close> for the exception; for the \<^verbatim>\<open>async\<close> function
  \<^verbatim>\<open>convertMdToPdf\<close> the value \<open>Inl e\<close> is the promise rejected with \<open>e\<close> and
  \<open>Inr r\<close> the promise fulfilled with the result object \<open>r\<close>.
\<close>

datatype error = Error (errorMessage: jsstring)

record conversionResult =
  success :: bool
  message :: jsstring
  outputPath :: "jsstring option"

text \<open>
  The options of \<^verbatim>\<open>convertMdToPdf\<close>; \<open>None\<close> is an absent property. The property
  \<^verbatim>\<open>tocFilter\<close> is the source text of a pattern here: it is \<open>tocFilterSource\<close>.
\<close>

record convertOptions =
  chromePath :: "jsstring option"
  noToc :: "bool option"
  tocTitle :: "jsstring option"
  tocFilterSource :: "jsstring option"
  format :: "jsstring option"
  landscape :: "bool option"
  marginTop :: "jsstring option"
  marginBottom :: "jsstring option"
  marginLeft :: "jsstring option"
  marginRight :: "jsstring option"

text \<open>
  The argument of \<^verbatim>\<open>page.pdf\<close>. The constant arguments of the other browser calls
  (\<^verbatim>\<open>headless: true\<close>, \<^verbatim>\<open>waitUntil: 'networkidle0'\<close>) are part of the calls of the
  environment below.
\<close>

record pdfMargin =
  marginTopOf :: jsstring
  marginBottomOf :: jsstring
  marginLeftOf :: jsstring
  marginRightOf :: jsstring

record pdfOptions =
  pdfPath :: jsstring
  pdfFormat :: jsstring
  pdfLandscape :: bool
  printBackground :: bool
  margin :: pdfMargin
  displayHeaderFooter :: bool
  pdfFooterTemplate :: jsstring
  pdfHeaderTemplate :: jsstring

text \<open>
  What the function calls outside this repository: \<^verbatim>\<open>path\<close>, \<^verbatim>\<open>fs\<close>, \<^verbatim>\<open>marked\<close>, the
  \<^verbatim>\<open>RegExp\<close> constructor (called with the flag \<^verbatim>\<open>i\<close>), \<^verbatim>\<open>puppeteer\<close> and the Unicode
  case tables. \<open>platformChromePaths\<close> is \<^verbatim>\<open>CHROME_PATHS[process.platform] || []\<close>.
  \<^verbatim>\<open>path.resolve\<close>, \<^verbatim>\<open>fs.existsSync\<close> and \<^verbatim>\<open>marked.setOptions\<close> do not throw on texts;
  \<^verbatim>\<open>configureMarked\<close> only sets the highlighter that \<open>lexer\<close> and \<open>parser\<close> use.
\<close>

record ('a, 'b, 'p) host =
  resolve :: "jsstring \<Rightarrow> jsstring"
  existsSync :: "jsstring \<Rightarrow> bool"
  platformChromePaths :: "jsstring list"
  readFileSync :: "jsstring \<Rightarrow> error + jsstring"
  lexer :: "jsstring \<Rightarrow> error + 'a token_scheme list"
  newRegExp :: "jsstring \<Rightarrow> error + regexp"
  parser :: "'a token_scheme list \<Rightarrow> error + jsstring"
  launch :: "jsstring \<Rightarrow> error + 'b"
  newPage :: "'b \<Rightarrow> error + 'p"
  setContent :: "'p \<Rightarrow> jsstring \<Rightarrow> error + unit"
  pdf :: "'p \<Rightarrow> pdfOptions \<Rightarrow> error + unit"
  close :: "'b \<Rightarrow> error + unit"
  unicodeLower :: "jsstring \<Rightarrow> jsstring"

text \<open>
  \<^verbatim>\<open>findChromePath\<close>: the first candidate that is a non-empty text and exists, else
  \<^verbatim>\<open>null\<close>.
\<close>

definition findChromePath :: "('a, 'b, 'p) host \<Rightarrow> jsstring option" where
  "findChromePath h = find (\<lambda>p. p \<noteq> [] \<and> existsSync h p) (platformChromePaths h)"

text \<open>
  The body of the \<^verbatim>\<open>try\<close> block up to \<^verbatim>\<open>browser.close()\<close>: the first call that throws
  ends it.
\<close>

definition generatePdf ::
  "('a, 'b, 'p) host \<Rightarrow> jsstring \<Rightarrow> jsstring \<Rightarrow> pdfOptions \<Rightarrow> error + unit" where
  "generatePdf h chromePath' fullHtml opts =
     (case launch h chromePath' of
        Inl e \<Rightarrow> Inl e
      | Inr browser \<Rightarrow>
          (case newPage h browser of
             Inl e \<Rightarrow> Inl e
           | Inr page \<Rightarrow>
               (case setContent h page fullHtml of
                  Inl e \<Rightarrow> Inl e
                | Inr _ \<Rightarrow>
                    (case pdf h page opts of
                       Inl e \<Rightarrow> Inl e
                     | Inr _ \<Rightarrow> close h browser))))"

definition orDefault :: "'v option \<Rightarrow> 'v \<Rightarrow> 'v" where
  "orDefault x d = (case x of None \<Rightarrow> d | Some v \<Rightarrow> v)"

definition convertMdToPdf ::
  "('a, 'b, 'p) host \<Rightarrow> styles \<Rightarrow> jsstring \<Rightarrow> jsstring \<Rightarrow> convertOptions
     \<Rightarrow> error + conversionResult" where
  \<open>convertMdToPdf h st inputFile outputFile options =
     (let customChromePath = chromePath options;
          noToc' = orDefault (noToc options) False;
          tocTitle' = orDefault (tocTitle options) (js ''Table of Contents'');
          tocFilter' = orDefault (tocFilterSource options) (js ''Topic|Summary|Section|Detailed'');
          format' = orDefault (format options) (js ''A4'');
          landscape' = orDefault (landscape options) False;
          marginTop' = orDefault (marginTop options) (js ''25.4mm'');
          marginBottom' = orDefault (marginBottom options) (js ''25.4mm'');
          marginLeft' = orDefault (marginLeft options) (js ''25.4mm'');
          marginRight' = orDefault (marginRight options) (js ''25.4mm'');
          inputPath = resolve h inputFile;
          outputPath' = resolve h outputFile
      in if \<not> existsSync h inputPath
         then Inr \<lparr> success = False,
                    message = js ''Input file not found: "'' @ inputFile @ js ''"'',
                    outputPath = None \<rparr>
         else
           (case (case customChromePath of
                    None \<Rightarrow> findChromePath h
                  | Some p \<Rightarrow> if p \<noteq> [] then Some p else findChromePath h) of
              None \<Rightarrow>
                Inr \<lparr> success = False,
                      message = js ''Chrome/Chromium not found. Please install Chrome or specify path with --chrome-path'',
                      outputPath = None \<rparr>
            | Some chromePath' \<Rightarrow>
                (case readFileSync h inputPath of
                   Inl e \<Rightarrow> Inl e
                 | Inr rawContent \<Rightarrow>
                     (case lexer h (cleanMarkdownContent rawContent) of
                        Inl e \<Rightarrow> Inl e
                      | Inr tokens \<Rightarrow>
                          (case newRegExp h tocFilter' of
                             Inl e \<Rightarrow> Inl e
                           | Inr tocFilterRegex \<Rightarrow>
                               (case extractHeadings (unicodeLower h) tokens
                                       \<lparr> tocFilter = Some tocFilterRegex, maxDepth = None \<rparr> of
                                  (toc, tokens', _) \<Rightarrow>
                                    (case parser h tokens' of
                                       Inl e \<Rightarrow> Inl e
                                     | Inr bodyContent \<Rightarrow>
                                         (let tocHtml = (if noToc' then []
                                                         else generateTocHtml toc (Some tocTitle'));
                                              fullHtml = generateFullHtml st tocHtml bodyContent None
                                          in case generatePdf h chromePath' fullHtml
                                                    \<lparr> pdfPath = outputPath',
                                                      pdfFormat = format',
                                                      pdfLandscape = landscape',
                                                      printBackground = True,
                                                      margin =
                                                        \<lparr> marginTopOf = marginTop',
                                                          marginBottomOf = marginBottom',
                                                          marginLeftOf = marginLeft',
                                                          marginRightOf = marginRight' \<rparr>,
                                                      displayHeaderFooter = True,
                                                      pdfFooterTemplate = footerTemplate st,
                                                      pdfHeaderTemplate = headerTemplate st \<rparr> of
                                               Inl err \<Rightarrow>
                                                 Inr \<lparr> success = False,
                                                       message = js ''PDF generation failed: '' @ errorMessage err,
                                                       outputPath = None \<rparr>
                                             | Inr _ \<Rightarrow>
                                                 Inr \<lparr> success = True,
                                                       message = js ''PDF generated successfully: "'' @ outputFile @ js ''"'',
                                                       outputPath = Some outputPath' \<rparr>))))))))\<close>

section \<open>Notions used to state the properties\<close>

text \<open>
  The words of the specification, as definitions over the model. A heading is indexed
  when its depth is at most the maximal depth. \<open>anchoredMarkup\<close> is the generic markup
  block that replaces it and \<open>tocEntryOf\<close> the entry derived from it.
\<close>

definition isIndexedHeading :: "int \<Rightarrow> 'a token_scheme \<Rightarrow> bool" where
  "isIndexedHeading md t \<longleftrightarrow> tokenType t = js ''heading'' \<and> tokenDepth t \<le> md"

definition anchoredMarkup :: "(jsstring \<Rightarrow> jsstring) \<Rightarrow> 'a token_scheme \<Rightarrow> 'a token_scheme" where
  "anchoredMarkup ul t =
     t\<lparr> tokenType := js ''html'',
        tokenText := headingHtml (tokenDepth t) (anchorOf ul (cleanTextOf (tokenText t)))
                       (cleanTextOf (tokenText t)) \<rparr>"

definition tocEntryOf :: "(jsstring \<Rightarrow> jsstring) \<Rightarrow> 'a token_scheme \<Rightarrow> TocEntry" where
  "tocEntryOf ul t =
     \<lparr> anchor = anchorOf ul (cleanTextOf (tokenText t)), level = tokenDepth t,
       entryText = cleanTextOf (tokenText t) \<rparr>"

text \<open>
  The answers of a filter object that is asked about a sequence of texts one after the
  other, and the object as the last question leaves it.
\<close>

fun answers :: "regexp \<Rightarrow> jsstring list \<Rightarrow> bool list" where
  "answers r [] = []"
| "answers r (s # ss) = fst (test r s) # answers (snd (test r s)) ss"

fun filterAfter :: "regexp \<Rightarrow> jsstring list \<Rightarrow> regexp" where
  "filterAfter r [] = r"
| "filterAfter r (s # ss) = filterAfter (snd (test r s)) ss"

text \<open>Tokens for the examples.\<close>

definition headingToken :: "int \<Rightarrow> jsstring \<Rightarrow> token" where
  "headingToken d s = \<lparr> tokenType = js ''heading'', tokenDepth = d, tokenText = s \<rparr>"

definition htmlToken :: "int \<Rightarrow> jsstring \<Rightarrow> token" where
  "htmlToken d s = \<lparr> tokenType = js ''html'', tokenDepth = d, tokenText = s \<rparr>"

definition paragraphToken :: "jsstring \<Rightarrow> token" where
  "paragraphToken s = \<lparr> tokenType = js ''paragraph'', tokenDepth = 0, tokenText = s \<rparr>"

section \<open>Example inputs\<close>

text \<open>
  An environment for the examples: every file exists, the input holds one heading, the
  lexer returns that heading, and the \<^verbatim>\<open>RegExp\<close> constructor rejects the pattern \<^verbatim>\<open>(\<close>
  with a \<^verbatim>\<open>SyntaxError\<close>, as every engine does; it builds the default filter from the
  default pattern, and any other pattern is taken to match everywhere. The browser calls
  succeed.
\<close>

definition matchAll :: regexp where
  "matchAll = \<lparr> search = (\<lambda>i s. Some i), advancing = False, lastIndex = 0 \<rparr>"

definition exampleHost :: "(unit, unit, unit) host" where
  "exampleHost =
     \<lparr> resolve = (\<lambda>p. js ''/work/'' @ p),
       existsSync = (\<lambda>p. True),
       platformChromePaths = [js ''/usr/bin/google-chrome''],
       readFileSync = (\<lambda>p. Inr (js ''# Topic'')),
       lexer = (\<lambda>s. Inr [headingToken 1 (js ''Topic'')]),
       newRegExp = (\<lambda>src. if src = js ''(''
                          then Inl (Error (js ''Invalid regular expression: /(/: Unterminated group''))
                          else if src = js ''Topic|Summary|Section|Detailed''
                          then Inr defaultTocFilter
                          else Inr matchAll),
       parser = (\<lambda>ts. Inr (concat (map tokenText ts))),
       launch = (\<lambda>p. Inr ()),
       newPage = (\<lambda>b. Inr ()),
       setContent = (\<lambda>p s. Inr ()),
       pdf = (\<lambda>p opts. Inr ()),
       close = (\<lambda>b. Inr ()),
       unicodeLower = (\<lambda>s. s) \<rparr>"

definition exampleStyles :: styles where
  "exampleStyles =
     \<lparr> defaultStyles = js ''body { margin: 0 auto; }'',
       footerTemplate = js ''<div></div>'',
       headerTemplate = js ''<div></div>'',
       highlightTheme = js ''theme.css'',
       mathJaxUrl = js ''mathjax.js'' \<rparr>"

definition noOptions :: convertOptions where
  "noOptions =
     \<lparr> chromePath = None, noToc = None, tocTitle = None, tocFilterSource = None,
       format = None, landscape = None, marginTop = None, marginBottom = None,
       marginLeft = None, marginRight = None \<rparr>"

section \<open>Properties of the content cleaner\<close>

lemma js_dashes: "js ''---'' = [0x2D, 0x2D, 0x2D]" by (simp add: js_def)
lemma js_dash2: "js ''--'' = [0x2D, 0x2D]" by (simp add: js_def)
lemma js_amp: "js '' & '' = [0x20, 0x26, 0x20]" by (simp add: js_def)

lemma afterDashes_None: "afterDashes t = None \<longleftrightarrow> \<not> sublist (js ''---'') t"
  by (induction t rule: afterDashes.induct) (auto simp: js_dashes sublist_Cons_right)

lemma afterDashes_Some:
  "afterDashes t = Some r \<Longrightarrow> \<exists>m. t = m @ js ''---'' @ r \<and> \<not> sublist (js ''---'') (m @ js ''--'')"
proof (induction t rule: afterDashes.induct)
  case (1 a b c cs)
  show ?case
  proof (cases "a = 0x2D \<and> b = 0x2D \<and> c = 0x2D")
    case True
    with 1 have "cs = r" by simp
    with True have "a # b # c # cs = [] @ js ''---'' @ r \<and> \<not> sublist (js ''---'') ([] @ js ''--'')"
      by (simp add: js_dashes js_dash2 sublist_Cons_right)
    then show ?thesis by blast
  next
    case False
    with 1 obtain m where m: "b # c # cs = m @ js ''---'' @ r" "\<not> sublist (js ''---'') (m @ js ''--'')"
      by auto
    have "\<not> prefix (js ''---'') (a # m @ js ''--'')"
    proof
      assume "prefix (js ''---'') (a # m @ js ''--'')"
      then have "prefix (js ''---'') (a # m @ js ''---'' @ r)"
        by (cases m; cases "tl m"; cases "tl (tl m)") (auto simp: js_dashes js_dash2)
      with m(1) have "prefix (js ''---'') (a # b # c # cs)" by simp
      with False show False by (simp add: js_dashes)
    qed
    with m have "a # b # c # cs = (a # m) @ js ''---'' @ r \<and> \<not> sublist (js ''---'') ((a # m) @ js ''--'')"
      by (simp add: sublist_Cons_right)
    then show ?thesis by blast
  qed
qed simp_all

lemma afterDashes_first:
  "\<not> sublist (js ''---'') (m @ js ''--'') \<Longrightarrow> afterDashes (m @ js ''---'' @ r) = Some r"
proof (induction m)
  case Nil
  then show ?case by (simp add: js_dashes)
next
  case (Cons a m)
  then have np: "\<not> prefix (js ''---'') (a # m @ js ''--'')" and ns: "\<not> sublist (js ''---'') (m @ js ''--'')"
    by (simp_all add: sublist_Cons_right)
  obtain b c cs where bc: "m @ js ''---'' @ r = b # c # cs"
    by (cases m; cases "tl m") (auto simp: js_dashes)
  have "\<not> (a = 0x2D \<and> b = 0x2D \<and> c = 0x2D)"
    using np bc by (cases m; cases "tl m") (auto simp: js_dashes js_dash2)
  then have "afterDashes ((a # m) @ js ''---'' @ r) = afterDashes (m @ js ''---'' @ r)"
    using bc by auto
  with Cons.IH[OF ns] show ?case by simp
qed

lemma escapeAmpersands_id: "\<not> sublist (js '' & '') s \<Longrightarrow> escapeAmpersands s = s"
  by (induction s rule: escapeAmpersands.induct) (auto simp: js_amp sublist_Cons_right)

lemma removeZeroWidth_clean: "list_all (\<lambda>c. \<not> isZeroWidth c) (removeZeroWidth s)"
  by (simp add: removeZeroWidth_def list_all_iff)

lemma removeZeroWidth_id: "list_all (\<lambda>c. \<not> isZeroWidth c) s \<Longrightarrow> removeZeroWidth s = s"
  by (simp add: removeZeroWidth_def list_all_iff)

lemma escapeAmpersands_clean:
  "list_all (\<lambda>c. \<not> isZeroWidth c) s \<Longrightarrow> list_all (\<lambda>c. \<not> isZeroWidth c) (escapeAmpersands s)"
  by (induction s rule: escapeAmpersands.induct) (auto simp: js_def isZeroWidth_def)

lemma removeFrontMatter_clean:
  "list_all (\<lambda>c. \<not> isZeroWidth c) s \<Longrightarrow> list_all (\<lambda>c. \<not> isZeroWidth c) (removeFrontMatter s)"
proof (cases "take 3 s = js ''---'' \<and> afterDashes (drop 3 s) \<noteq> None")
  case True
  then obtain r where r: "afterDashes (drop 3 s) = Some r" by auto
  from afterDashes_Some[OF r] obtain m where "drop 3 s = m @ js ''---'' @ r" by blast
  then have "s = take 3 s @ m @ js ''---'' @ r" by (metis append_take_drop_id)
  moreover assume "list_all (\<lambda>c. \<not> isZeroWidth c) s"
  ultimately have "list_all (\<lambda>c. \<not> isZeroWidth c) r"
    by (metis list_all_append)
  with True r show ?thesis by (simp add: removeFrontMatter_def)
next
  case False
  moreover assume "list_all (\<lambda>c. \<not> isZeroWidth c) s"
  ultimately show ?thesis by (auto simp: removeFrontMatter_def split: option.splits)
qed

lemma cleanMarkdownContent_clean: "list_all (\<lambda>c. \<not> isZeroWidth c) (cleanMarkdownContent x)"
  by (simp add: cleanMarkdownContent_def removeFrontMatter_clean escapeAmpersands_clean removeZeroWidth_clean)

text \<open>
  One pass leaves a space-delimited ampersand behind only where two of them overlap in
  the input (\<^verbatim>\<open> & & \<close>): the scan resumes after the first match and so skips the
  second.
\<close>

lemma escapeAmpersands_head_space:
  "escapeAmpersands u = 0x20 # r \<Longrightarrow> \<exists>r'. u = 0x20 # r'"
  by (cases u rule: escapeAmpersands.cases) (auto simp: js_def split: if_splits)

lemma escapeAmpersands_head_amp_space:
  assumes "prefix [0x26, 0x20] (escapeAmpersands t)"
  shows "prefix [0x26, 0x20] t"
proof (cases t rule: escapeAmpersands.cases)
  case (1 a b c cs)
  show ?thesis
  proof (cases "a = 0x20 \<and> b = 0x26 \<and> c = 0x20")
    case True
    with 1 assms show ?thesis by (simp add: js_def)
  next
    case False
    with 1 assms have a: "a = 0x26" and p: "prefix [0x20] (escapeAmpersands (b # c # cs))"
      by auto
    from p obtain r where "escapeAmpersands (b # c # cs) = 0x20 # r"
      by (auto simp: prefix_def)
    from escapeAmpersands_head_space[OF this] have "b = 0x20" by simp
    with a 1 show ?thesis by simp
  qed
qed (use assms in simp_all)

lemma escapeAmpersands_settles:
  "\<not> sublist (js '' & & '') s \<Longrightarrow> \<not> sublist (js '' & '') (escapeAmpersands s)"
proof (induction s rule: escapeAmpersands.induct)
  case (1 a b c cs)
  show ?case
  proof (cases "a = 0x20 \<and> b = 0x26 \<and> c = 0x20")
    case True
    have ncs: "\<not> sublist (js '' & & '') cs"
      using "1.prems" by (auto simp: sublist_Cons_right)
    with True "1.IH"(1) have ih: "\<not> sublist (js '' & '') (escapeAmpersands cs)"
      by simp
    have np: "\<not> prefix [0x26, 0x20] (escapeAmpersands cs)"
    proof
      assume "prefix [0x26, 0x20] (escapeAmpersands cs)"
      then have "prefix [0x26, 0x20] cs" by (rule escapeAmpersands_head_amp_space)
      then have "prefix (js '' & & '') (a # b # c # cs)"
        using True by (auto simp: js_def prefix_def)
      then show False using "1.prems" by (simp add: sublist_Cons_right)
    qed
    have "\<not> sublist (js '' & '') (js '' &amp; '' @ escapeAmpersands cs)"
      using ih np by (auto simp: js_def sublist_Cons_right)
    with True show ?thesis by simp
  next
    case False
    have "\<not> sublist (js '' & & '') (b # c # cs)"
      using "1.prems" by (auto simp: sublist_Cons_right)
    with False "1.IH"(2) have ih: "\<not> sublist (js '' & '') (escapeAmpersands (b # c # cs))"
      by simp
    have "\<not> prefix (js '' & '') (a # escapeAmpersands (b # c # cs))"
    proof
      assume p: "prefix (js '' & '') (a # escapeAmpersands (b # c # cs))"
      then have a: "a = 0x20" and "prefix [0x26, 0x20] (escapeAmpersands (b # c # cs))"
        by (auto simp: js_def)
      then have "prefix [0x26, 0x20] (b # c # cs)"
        using escapeAmpersands_head_amp_space by blast
      with a False show False by simp
    qed
    moreover have "escapeAmpersands (a # b # c # cs) = a # escapeAmpersands (b # c # cs)"
      using False by auto
    ultimately show ?thesis using ih by (simp only: sublist_Cons_right) blast
  qed
qed (simp_all add: js_def sublist_Cons_right)


lemma removeFrontMatter_suffix: "suffix (removeFrontMatter s) s"
proof (cases "take 3 s = js ''---'' \<and> afterDashes (drop 3 s) \<noteq> None")
  case True
  then obtain r where r: "afterDashes (drop 3 s) = Some r" by auto
  from afterDashes_Some[OF r] obtain m where "drop 3 s = m @ js ''---'' @ r" by blast
  then have "s = (take 3 s @ m @ js ''---'') @ r" by (metis append.assoc append_take_drop_id)
  then have "suffix r s" by (metis suffixI)
  with True r show ?thesis by (simp add: removeFrontMatter_def)
next
  case False
  then show ?thesis by (auto simp: removeFrontMatter_def split: option.splits)
qed

lemma cleanMarkdownContent_no_bare_ampersand:
  assumes "\<not> sublist (js '' & & '') (removeZeroWidth x)"
  shows "\<not> sublist (js '' & '') (cleanMarkdownContent x)"
proof
  assume "sublist (js '' & '') (cleanMarkdownContent x)"
  moreover have "sublist (cleanMarkdownContent x) (escapeAmpersands (removeZeroWidth x))"
    unfolding cleanMarkdownContent_def Let_def
    by (rule suffix_imp_sublist) (rule removeFrontMatter_suffix)
  ultimately have "sublist (js '' & '') (escapeAmpersands (removeZeroWidth x))"
    by (rule sublist_order.order_trans)
  with escapeAmpersands_settles[OF assms] show False by simp
qed

text \<open>
  Claim C3, as the code has it. Let \<open>c\<close> be the text after the first two steps. The
  cleaner deletes a leading block exactly when \<open>c\<close> begins with the three code units
  \<^verbatim>\<open>---\<close> (whether or not they make up a whole line) and a further \<^verbatim>\<open>---\<close> occurs from
  index 3 on. What is deleted then runs from the start of the text to the end of the first
  such later \<^verbatim>\<open>---\<close> and no further: the rest of that line, line break included, is
  kept. In every other case the text is kept whole. On the text \<^verbatim>\<open>---\<close>, line break,
  \<^verbatim>\<open>key: v\<close>, line break, \<^verbatim>\<open>---\<close>, line break, \<^verbatim>\<open>Body\<close> the result is a line break
  followed by \<^verbatim>\<open>Body\<close>.
\<close>

theorem cleanMarkdownContent_front_matter:
  "(prefix (js ''---'') (escapeAmpersands (removeZeroWidth x)) \<and>
    sublist (js ''---'') (drop 3 (escapeAmpersands (removeZeroWidth x))) \<longrightarrow>
      (\<exists>m r. escapeAmpersands (removeZeroWidth x) = js ''---'' @ m @ js ''---'' @ r \<and>
             \<not> sublist (js ''---'') (m @ js ''--'') \<and>
             cleanMarkdownContent x = r)) \<and>
   (\<not> (prefix (js ''---'') (escapeAmpersands (removeZeroWidth x)) \<and>
       sublist (js ''---'') (drop 3 (escapeAmpersands (removeZeroWidth x)))) \<longrightarrow>
      cleanMarkdownContent x = escapeAmpersands (removeZeroWidth x)) \<and>
   cleanMarkdownContent (js ''---\<newline>key: v\<newline>---\<newline>Body'') = js ''\<newline>Body''"
proof (intro conjI impI)
  let ?c = "escapeAmpersands (removeZeroWidth x)"
  assume h: "prefix (js ''---'') ?c \<and> sublist (js ''---'') (drop 3 ?c)"
  then have t3: "take 3 ?c = js ''---''"
    by (auto simp: prefix_def js_dashes)
  from h obtain r where r: "afterDashes (drop 3 ?c) = Some r"
    using afterDashes_None[of "drop 3 ?c"] by auto
  from afterDashes_Some[OF r] obtain m
    where m: "drop 3 ?c = m @ js ''---'' @ r" "\<not> sublist (js ''---'') (m @ js ''--'')"
    by blast
  have "?c = take 3 ?c @ drop 3 ?c" by simp
  with t3 m(1) have "?c = js ''---'' @ m @ js ''---'' @ r" by simp
  moreover have "cleanMarkdownContent x = r"
    using t3 r by (simp add: cleanMarkdownContent_def removeFrontMatter_def Let_def)
  ultimately show "\<exists>m r. ?c = js ''---'' @ m @ js ''---'' @ r \<and>
      \<not> sublist (js ''---'') (m @ js ''--'') \<and> cleanMarkdownContent x = r"
    using m(2) by blast
next
  let ?c = "escapeAmpersands (removeZeroWidth x)"
  assume h: "\<not> (prefix (js ''---'') ?c \<and> sublist (js ''---'') (drop 3 ?c))"
  show "cleanMarkdownContent x = ?c"
  proof (cases "take 3 ?c = js ''---''")
    case True
    then have "prefix (js ''---'') ?c"
      by (metis take_is_prefix)
    with h have "afterDashes (drop 3 ?c) = None"
      by (simp add: afterDashes_None)
    then show ?thesis
      by (simp add: cleanMarkdownContent_def removeFrontMatter_def Let_def)
  next
    case False
    then show ?thesis
      by (simp add: cleanMarkdownContent_def removeFrontMatter_def Let_def)
  qed
next
  show "cleanMarkdownContent (js ''---\<newline>key: v\<newline>---\<newline>Body'') = js ''\<newline>Body''"
    by (simp add: cleanMarkdownContent_def removeZeroWidth_def isZeroWidth_def
        removeFrontMatter_def js_def)
qed

theorem cleanMarkdownContent_front_matter_witness:
  "(\<exists>m r. js ''---\<newline>a &amp; b\<newline>---\<newline>Body'' = js ''---'' @ m @ js ''---'' @ r \<and>
          \<not> sublist (js ''---'') (m @ js ''--'') \<and>
          cleanMarkdownContent (js ''---\<newline>a & b\<newline>---\<newline>Body'') = r) \<and>
   cleanMarkdownContent (js ''--- only one rule'') = js ''--- only one rule''"
proof -
  have c1: "escapeAmpersands (removeZeroWidth (js ''---\<newline>a & b\<newline>---\<newline>Body''))
      = js ''---\<newline>a &amp; b\<newline>---\<newline>Body''"
    by (simp add: removeZeroWidth_def isZeroWidth_def js_def)
  have h1: "prefix (js ''---'') (js ''---\<newline>a &amp; b\<newline>---\<newline>Body'') \<and>
      sublist (js ''---'') (drop 3 (js ''---\<newline>a &amp; b\<newline>---\<newline>Body''))"
    by (simp add: js_def sublist_Cons_right)
  have c2: "escapeAmpersands (removeZeroWidth (js ''--- only one rule'')) = js ''--- only one rule''"
    by (simp add: removeZeroWidth_def isZeroWidth_def js_def)
  have h2: "\<not> (prefix (js ''---'') (js ''--- only one rule'') \<and>
      sublist (js ''---'') (drop 3 (js ''--- only one rule'')))"
    by (simp add: js_def sublist_Cons_right)
  show ?thesis
    using cleanMarkdownContent_front_matter[of "js ''---\<newline>a & b\<newline>---\<newline>Body''"]
      cleanMarkdownContent_front_matter[of "js ''--- only one rule''"]
    unfolding c1 c2 using h1 h2 by blast
qed

theorem cleanMarkdownContent_front_matter_counterexample:
  "cleanMarkdownContent (js ''---\<newline>key: v\<newline>---\<newline>Body'') \<noteq> js ''Body''"
  by (simp add: cleanMarkdownContent_def removeZeroWidth_def isZeroWidth_def
      removeFrontMatter_def js_def)

text \<open>
  The ampersand step never touches a dash, so it commutes with the front matter step:
  the cleaned text is the escaped form of the text with its leading block removed.
\<close>

lemma escapeAmpersands_dash: "escapeAmpersands (0x2D # t) = 0x2D # escapeAmpersands t"
  by (cases t rule: escapeAmpersands.cases) simp_all

lemma escapeAmpersands_hd: "\<exists>r. escapeAmpersands (x # t) = x # r"
  by (cases "x # t" rule: escapeAmpersands.cases) (auto simp: js_def)

lemma escapeAmpersands_Nil: "escapeAmpersands s = [] \<longleftrightarrow> s = []"
  by (cases s rule: escapeAmpersands.cases) (auto simp: js_def)

lemma afterDashes_skip: "x \<noteq> 0x2D \<Longrightarrow> afterDashes (x # t) = afterDashes t"
  by (cases t rule: afterDashes.cases) auto

lemma afterDashes_escapeAmpersands:
  "afterDashes (escapeAmpersands s) = map_option escapeAmpersands (afterDashes s)"
proof (induction s rule: escapeAmpersands.induct)
  case (1 a b c cs)
  show ?case
  proof (cases "a = 0x20 \<and> b = 0x26 \<and> c = 0x20")
    case True
    then have "afterDashes (escapeAmpersands (a # b # c # cs)) = afterDashes (escapeAmpersands cs)"
      by (simp add: js_def afterDashes_skip)
    moreover have "afterDashes (a # b # c # cs) = afterDashes cs"
      using True by (simp add: afterDashes_skip)
    ultimately show ?thesis using True "1.IH"(1) by simp
  next
    case False
    then have e: "escapeAmpersands (a # b # c # cs) = a # escapeAmpersands (b # c # cs)"
      by auto
    show ?thesis
    proof (cases "a = 0x2D")
      case na: False
      then show ?thesis
        using False "1.IH"(2) by (simp only: e afterDashes_skip[OF na]) simp
    next
      case a: True
      show ?thesis
      proof (cases "b = 0x2D \<and> c = 0x2D")
        case True
        then show ?thesis using a by (simp add: escapeAmpersands_dash)
      next
        case nbc: False
        obtain r where r: "escapeAmpersands (c # cs) = c # r"
          using escapeAmpersands_hd by blast
        obtain r' where r': "escapeAmpersands (b # c # cs) = b # r'"
          using escapeAmpersands_hd by blast
        have "afterDashes (a # escapeAmpersands (b # c # cs)) = afterDashes (escapeAmpersands (b # c # cs))"
        proof (cases "b = 0x2D")
          case True
          with nbc have "c \<noteq> 0x2D" by simp
          with True r show ?thesis
            by (cases r) (simp_all add: escapeAmpersands_dash)
        next
          case False
          with r' show ?thesis by (cases r') simp_all
        qed
        moreover have "afterDashes (a # b # c # cs) = afterDashes (b # c # cs)"
          using nbc by auto
        ultimately show ?thesis using False "1.IH"(2) e by simp
      qed
    qed
  qed
qed simp_all

lemma take3_escapeAmpersands:
  "take 3 (escapeAmpersands s) = js ''---'' \<longleftrightarrow> take 3 s = js ''---''"
proof
  assume "take 3 s = js ''---''"
  then obtain t where "s = 0x2D # 0x2D # 0x2D # t"
    by (cases s; cases "tl s"; cases "tl (tl s)") (auto simp: js_def)
  then show "take 3 (escapeAmpersands s) = js ''---''"
    by (simp add: escapeAmpersands_dash js_def)
next
  assume h: "take 3 (escapeAmpersands s) = js ''---''"
  then obtain x t where s: "s = x # t"
    by (cases s) (auto simp: js_def)
  obtain r where "escapeAmpersands (x # t) = x # r" using escapeAmpersands_hd by blast
  with h s have x: "x = 0x2D" by (simp add: js_def)
  with h s have h2: "take 2 (escapeAmpersands t) = [0x2D, 0x2D]"
    by (simp add: escapeAmpersands_dash js_def)
  then obtain y u where t: "t = y # u"
    by (cases t) auto
  obtain r2 where "escapeAmpersands (y # u) = y # r2" using escapeAmpersands_hd by blast
  with h2 t have y: "y = 0x2D" by simp
  with h2 t have h3: "take 1 (escapeAmpersands u) = [0x2D]"
    by (simp add: escapeAmpersands_dash)
  then obtain z v where u: "u = z # v"
    by (cases u) auto
  obtain r3 where "escapeAmpersands (z # v) = z # r3" using escapeAmpersands_hd by blast
  with h3 u have "z = 0x2D" by simp
  with s t u x y show "take 3 s = js ''---''" by (simp add: js_def)
qed

lemma drop3_escapeAmpersands:
  "take 3 s = js ''---'' \<Longrightarrow> drop 3 (escapeAmpersands s) = escapeAmpersands (drop 3 s)"
proof -
  assume "take 3 s = js ''---''"
  then obtain t where "s = 0x2D # 0x2D # 0x2D # t"
    by (cases s; cases "tl s"; cases "tl (tl s)") (auto simp: js_def)
  then show ?thesis by (simp add: escapeAmpersands_dash)
qed

lemma removeFrontMatter_escapeAmpersands:
  "removeFrontMatter (escapeAmpersands s) = escapeAmpersands (removeFrontMatter s)"
proof (cases "take 3 s = js ''---''")
  case True
  then show ?thesis
    by (simp add: removeFrontMatter_def take3_escapeAmpersands drop3_escapeAmpersands
        afterDashes_escapeAmpersands split: option.splits)
next
  case False
  then show ?thesis
    by (simp add: removeFrontMatter_def take3_escapeAmpersands)
qed

lemma prefix_dashes_take: "prefix (js ''---'') s \<longleftrightarrow> take 3 s = js ''---''"
proof
  assume "prefix (js ''---'') s"
  then obtain zs where "s = js ''---'' @ zs" by (auto simp: prefix_def)
  then show "take 3 s = js ''---''" by (simp add: js_def)
next
  assume "take 3 s = js ''---''"
  then show "prefix (js ''---'') s" by (metis take_is_prefix)
qed

lemma leading_block_iff:
  "prefix (js ''---'') s \<and> sublist (js ''---'') (drop 3 s) \<longleftrightarrow>
   take 3 s = js ''---'' \<and> afterDashes (drop 3 s) \<noteq> None"
  by (simp only: prefix_dashes_take afterDashes_None) simp

lemma removeFrontMatter_fixed_iff:
  "removeFrontMatter y = y \<longleftrightarrow>
   \<not> (prefix (js ''---'') y \<and> sublist (js ''---'') (drop 3 y))"
proof (cases "take 3 y = js ''---'' \<and> afterDashes (drop 3 y) \<noteq> None")
  case True
  then obtain r where r: "afterDashes (drop 3 y) = Some r" by auto
  from afterDashes_Some[OF r] obtain m where "drop 3 y = m @ js ''---'' @ r" by blast
  then have "length r < length (drop 3 y)" by (simp add: js_def)
  then have "r \<noteq> y" by auto
  moreover have "removeFrontMatter y = r"
    using True r by (simp add: removeFrontMatter_def)
  ultimately show ?thesis using True by (simp add: leading_block_iff)
next
  case False
  then have "removeFrontMatter y = y"
    by (auto simp: removeFrontMatter_def split: option.splits)
  with False show ?thesis by (simp add: leading_block_iff)
qed

lemma leading_block_escapeAmpersands:
  "prefix (js ''---'') (escapeAmpersands s) \<and> sublist (js ''---'') (drop 3 (escapeAmpersands s))
   \<longleftrightarrow> prefix (js ''---'') s \<and> sublist (js ''---'') (drop 3 s)"
proof -
  have "take 3 (escapeAmpersands s) = js ''---'' \<and>
        afterDashes (drop 3 (escapeAmpersands s)) \<noteq> None \<longleftrightarrow>
        take 3 s = js ''---'' \<and> afterDashes (drop 3 s) \<noteq> None"
  proof (cases "take 3 s = js ''---''")
    case True
    have "afterDashes (drop 3 (escapeAmpersands s)) =
        map_option escapeAmpersands (afterDashes (drop 3 s))"
      by (simp only: drop3_escapeAmpersands[OF True] afterDashes_escapeAmpersands)
    then show ?thesis
      using True by (simp add: take3_escapeAmpersands)
  next
    case False
    then show ?thesis by (simp add: take3_escapeAmpersands)
  qed
  then show ?thesis by (simp only: leading_block_iff)
qed

lemma leading_block_after_removal:
  "prefix (js ''---'') (removeFrontMatter s) \<and>
   sublist (js ''---'') (drop 3 (removeFrontMatter s)) \<longleftrightarrow>
   (\<exists>m r. s = js ''---'' @ m @ js ''---'' @ r \<and> \<not> sublist (js ''---'') (m @ js ''--'') \<and>
          prefix (js ''---'') r \<and> sublist (js ''---'') (drop 3 r))"
  (is "?L \<longleftrightarrow> ?R")
proof
  assume l: ?L
  have lead: "take 3 s = js ''---'' \<and> afterDashes (drop 3 s) \<noteq> None"
  proof (rule ccontr)
    assume n: "\<not> ?thesis"
    then have "removeFrontMatter s = s"
      by (auto simp: removeFrontMatter_def split: option.splits)
    with l n show False by (simp add: leading_block_iff)
  qed
  then obtain r where r: "afterDashes (drop 3 s) = Some r" by auto
  from afterDashes_Some[OF r] obtain m
    where m: "drop 3 s = m @ js ''---'' @ r" "\<not> sublist (js ''---'') (m @ js ''--'')"
    by blast
  have "s = take 3 s @ drop 3 s" by simp
  with lead m(1) have "s = js ''---'' @ m @ js ''---'' @ r" by simp
  moreover have "removeFrontMatter s = r"
    using lead r by (simp add: removeFrontMatter_def)
  ultimately show ?R using l m(2) by auto
next
  assume ?R
  then obtain m r where s: "s = js ''---'' @ m @ js ''---'' @ r"
    and f: "\<not> sublist (js ''---'') (m @ js ''--'')"
    and b: "prefix (js ''---'') r \<and> sublist (js ''---'') (drop 3 r)"
    by blast
  from s have "take 3 s = js ''---''" "drop 3 s = m @ js ''---'' @ r"
    by (simp_all add: js_def)
  with afterDashes_first[OF f, of r] have "removeFrontMatter s = r"
    by (simp add: removeFrontMatter_def)
  with b show ?L by simp
qed


text \<open>
  Claim C2, as the code has it. Take an input that, its zero-width code units left
  aside, holds no two overlapping space-delimited ampersands (\<^verbatim>\<open> & & \<close>). Cleaning it
  twice gives the same text as cleaning it once exactly when the text that follows its
  leading \<^verbatim>\<open>---\<close> ... \<^verbatim>\<open>---\<close> block does not itself begin with such a block: the front
  matter step removes one block per call and no more. Nothing is stated here about
  inputs with overlapping ampersands.
\<close>

theorem cleanMarkdownContent_idempotent_iff:
  assumes "\<not> sublist (js '' & & '') (removeZeroWidth x)"
  shows "cleanMarkdownContent (cleanMarkdownContent x) = cleanMarkdownContent x \<longleftrightarrow>
         \<not> (\<exists>m r. removeZeroWidth x = js ''---'' @ m @ js ''---'' @ r \<and>
                  \<not> sublist (js ''---'') (m @ js ''--'') \<and>
                  prefix (js ''---'') r \<and> sublist (js ''---'') (drop 3 r))"
proof -
  let ?s = "removeZeroWidth x"
  let ?y = "cleanMarkdownContent x"
  have y: "?y = escapeAmpersands (removeFrontMatter ?s)"
    by (simp add: cleanMarkdownContent_def removeFrontMatter_escapeAmpersands)
  have z: "removeZeroWidth ?y = ?y"
    by (rule removeZeroWidth_id) (rule cleanMarkdownContent_clean)
  have e: "escapeAmpersands ?y = ?y"
    using cleanMarkdownContent_no_bare_ampersand[OF assms] by (rule escapeAmpersands_id)
  have "cleanMarkdownContent ?y = removeFrontMatter (escapeAmpersands (removeZeroWidth ?y))"
    by (simp add: cleanMarkdownContent_def)
  with z e have "cleanMarkdownContent ?y = removeFrontMatter ?y" by simp
  then have "cleanMarkdownContent ?y = ?y \<longleftrightarrow>
      \<not> (prefix (js ''---'') ?y \<and> sublist (js ''---'') (drop 3 ?y))"
    by (simp add: removeFrontMatter_fixed_iff)
  also have "\<dots> \<longleftrightarrow> \<not> (prefix (js ''---'') (removeFrontMatter ?s) \<and>
      sublist (js ''---'') (drop 3 (removeFrontMatter ?s)))"
    unfolding y by (simp only: leading_block_escapeAmpersands)
  finally show ?thesis
    by (simp only: leading_block_after_removal)
qed

theorem cleanMarkdownContent_idempotent_iff_witness:
  "\<not> sublist (js '' & & '') (removeZeroWidth (js ''---\<newline>k: v\<newline>---\<newline>Tom & Jerry'')) \<and>
   cleanMarkdownContent (cleanMarkdownContent (js ''---\<newline>k: v\<newline>---\<newline>Tom & Jerry''))
     = cleanMarkdownContent (js ''---\<newline>k: v\<newline>---\<newline>Tom & Jerry'') \<and>
   \<not> (\<exists>m r. removeZeroWidth (js ''---\<newline>k: v\<newline>---\<newline>Tom & Jerry'')
              = js ''---'' @ m @ js ''---'' @ r \<and>
            \<not> sublist (js ''---'') (m @ js ''--'') \<and>
            prefix (js ''---'') r \<and> sublist (js ''---'') (drop 3 r)) \<and>
   \<not> sublist (js '' & & '') (removeZeroWidth (js ''---a------b & c---d'')) \<and>
   cleanMarkdownContent (cleanMarkdownContent (js ''---a------b & c---d''))
     \<noteq> cleanMarkdownContent (js ''---a------b & c---d'') \<and>
   (\<exists>m r. removeZeroWidth (js ''---a------b & c---d'') = js ''---'' @ m @ js ''---'' @ r \<and>
          \<not> sublist (js ''---'') (m @ js ''--'') \<and>
          prefix (js ''---'') r \<and> sublist (js ''---'') (drop 3 r))"
proof -
  let ?x1 = "js ''---\<newline>k: v\<newline>---\<newline>Tom & Jerry''"
  let ?x2 = "js ''---a------b & c---d''"
  have h1: "\<not> sublist (js '' & & '') (removeZeroWidth ?x1)"
    by (simp add: removeZeroWidth_def isZeroWidth_def js_def sublist_Cons_right)
  have h2: "\<not> sublist (js '' & & '') (removeZeroWidth ?x2)"
    by (simp add: removeZeroWidth_def isZeroWidth_def js_def sublist_Cons_right)
  have e1: "cleanMarkdownContent (cleanMarkdownContent ?x1) = cleanMarkdownContent ?x1"
    by (simp add: cleanMarkdownContent_def removeZeroWidth_def isZeroWidth_def
        removeFrontMatter_def js_def)
  have e2: "cleanMarkdownContent (cleanMarkdownContent ?x2) \<noteq> cleanMarkdownContent ?x2"
    by (simp add: cleanMarkdownContent_def removeZeroWidth_def isZeroWidth_def
        removeFrontMatter_def js_def)
  from cleanMarkdownContent_idempotent_iff[OF h1] e1
  have r1: "\<not> (\<exists>m r. removeZeroWidth ?x1 = js ''---'' @ m @ js ''---'' @ r \<and>
            \<not> sublist (js ''---'') (m @ js ''--'') \<and>
            prefix (js ''---'') r \<and> sublist (js ''---'') (drop 3 r))"
    by blast
  from cleanMarkdownContent_idempotent_iff[OF h2] e2
  have r2: "\<exists>m r. removeZeroWidth ?x2 = js ''---'' @ m @ js ''---'' @ r \<and>
          \<not> sublist (js ''---'') (m @ js ''--'') \<and>
          prefix (js ''---'') r \<and> sublist (js ''---'') (drop 3 r)"
    by blast
  from h1 e1 r1 h2 e2 r2 show ?thesis by blast
qed

theorem cleanMarkdownContent_idempotent_counterexample:
  "cleanMarkdownContent (cleanMarkdownContent (js ''---a------b---c''))
     \<noteq> cleanMarkdownContent (js ''---a------b---c'')"
  by (simp add: cleanMarkdownContent_def removeZeroWidth_def isZeroWidth_def
      removeFrontMatter_def js_def)

lemma second_front_matter_block_survives:
  "cleanMarkdownContent (js ''---a------b---c'') = js ''---b---c'' \<and>
   cleanMarkdownContent (js ''---b---c'') = js ''c''"
  by (simp add: cleanMarkdownContent_def removeZeroWidth_def isZeroWidth_def
      removeFrontMatter_def js_def)

text \<open>
  An input outside the hypothesis of the theorem: of two overlapping space-delimited
  ampersands one call escapes the first only.
\<close>

lemma overlapping_ampersands_one_pass:
  "cleanMarkdownContent (js ''a & & b'') = js ''a &amp; & b''"
  by (simp add: cleanMarkdownContent_def removeZeroWidth_def isZeroWidth_def
      removeFrontMatter_def js_def)

section \<open>Properties of the heading pass\<close>

lemma visitToken_indexed:
  "isIndexedHeading md t \<Longrightarrow>
   visitToken ul md t toc f =
     (anchoredMarkup ul t,
      toc @ (if fst (test f (cleanTextOf (tokenText t))) then [tocEntryOf ul t] else []),
      snd (test f (cleanTextOf (tokenText t))))"
  by (simp add: visitToken_def isIndexedHeading_def anchoredMarkup_def tocEntryOf_def Let_def
      split: prod.splits)

lemma visitToken_other:
  "\<not> isIndexedHeading md t \<Longrightarrow> visitToken ul md t toc f = (t, toc, f)"
  by (auto simp add: visitToken_def isIndexedHeading_def)

lemma forEachToken_closed:
  "forEachToken ul md ts toc f =
     (map (\<lambda>t. if isIndexedHeading md t then anchoredMarkup ul t else t) ts,
      toc @ map (tocEntryOf ul \<circ> fst)
              (filter snd (zip (filter (isIndexedHeading md) ts)
                 (answers f (map (cleanTextOf \<circ> tokenText) (filter (isIndexedHeading md) ts))))),
      filterAfter f (map (cleanTextOf \<circ> tokenText) (filter (isIndexedHeading md) ts)))"
proof (induction ts arbitrary: toc f)
  case Nil
  show ?case by simp
next
  case (Cons t ts)
  show ?case
  proof (cases "isIndexedHeading md t")
    case True
    then show ?thesis
      by (simp add: visitToken_indexed Cons.IH)
  next
    case False
    then show ?thesis
      by (simp add: visitToken_other Cons.IH)
  qed
qed

lemma forEachToken_append:
  "forEachToken ul md (xs @ ys) toc f =
     (case forEachToken ul md xs toc f of
        (xs', toc1, f1) \<Rightarrow>
          (case forEachToken ul md ys toc1 f1 of
             (ys', toc2, f2) \<Rightarrow> (xs' @ ys', toc2, f2)))"
  by (induction xs arbitrary: toc f) (auto split: prod.splits)

lemma forEachToken_acc:
  "forEachToken ul md ts toc f =
     (case forEachToken ul md ts [] f of (ts', toc', f') \<Rightarrow> (ts', toc @ toc', f'))"
  by (simp add: forEachToken_closed)

lemma answers_plain:
  "\<not> advancing r \<Longrightarrow> answers r ss = map (\<lambda>s. search r 0 s \<noteq> None) ss"
  by (induction ss) (auto simp: test_def split: option.splits)

lemma js_append: "js (a @ b) = js a @ js b"
  by (simp add: js_def)

lemma visitToken_acc:
  "visitToken ul md t toc f =
     (case visitToken ul md t [] f of (t', toc', f') \<Rightarrow> (t', toc @ toc', f'))"
  by (cases "isIndexedHeading md t") (simp_all add: visitToken_indexed visitToken_other)

lemma extractHeadings_at:
  "extractHeadings ul (pre @ t # post) options =
    (case extractHeadings ul pre options of
       (toc1, pre', f1) \<Rightarrow>
         (case visitToken ul (maxDepthOf options) t [] f1 of
            (t', toc_t, f1') \<Rightarrow>
              (case extractHeadings ul post (options\<lparr>tocFilter := Some f1'\<rparr>) of
                 (toc2, post', f2) \<Rightarrow> (toc1 @ toc_t @ toc2, pre' @ t' # post', f2))))"
proof -
  let ?md = "maxDepthOf options"
  let ?f = "tocFilterOf options"
  obtain pre' toc1 f1 where p: "forEachToken ul ?md pre [] ?f = (pre', toc1, f1)"
    by (cases "forEachToken ul ?md pre [] ?f") auto
  obtain t' toc_t f1' where v: "visitToken ul ?md t [] f1 = (t', toc_t, f1')"
    by (cases "visitToken ul ?md t [] f1") auto
  obtain post' toc2 f2 where q: "forEachToken ul ?md post [] f1' = (post', toc2, f2)"
    by (cases "forEachToken ul ?md post [] f1'") auto
  have v': "visitToken ul ?md t toc1 f1 = (t', toc1 @ toc_t, f1')"
    using visitToken_acc[of ul ?md t toc1 f1] v by simp
  have q': "forEachToken ul ?md post (toc1 @ toc_t) f1' = (post', (toc1 @ toc_t) @ toc2, f2)"
    using forEachToken_acc[of ul ?md post "toc1 @ toc_t" f1'] q by simp
  have "forEachToken ul ?md (pre @ t # post) [] ?f = (pre' @ t' # post', toc1 @ toc_t @ toc2, f2)"
    using p v' q' by (simp add: forEachToken_append)
  then have l: "extractHeadings ul (pre @ t # post) options = (toc1 @ toc_t @ toc2, pre' @ t' # post', f2)"
    by (simp add: extractHeadings_def)
  have a: "extractHeadings ul pre options = (toc1, pre', f1)"
    using p by (simp add: extractHeadings_def)
  have b: "extractHeadings ul post (options\<lparr>tocFilter := Some f1'\<rparr>) = (toc2, post', f2)"
    using q by (simp add: extractHeadings_def maxDepthOf_def tocFilterOf_def)
  show ?thesis
    unfolding l a using v b by simp
qed

lemma extractHeadings_closed:
  "extractHeadings ul tokens options =
     (let f = tocFilterOf options;
          md = maxDepthOf options;
          hs = filter (isIndexedHeading md) tokens;
          texts = map (cleanTextOf \<circ> tokenText) hs
      in (map (tocEntryOf ul \<circ> fst) (filter snd (zip hs (answers f texts))),
          map (\<lambda>t. if isIndexedHeading md t then anchoredMarkup ul t else t) tokens,
          filterAfter f texts))"
  by (simp add: extractHeadings_def forEachToken_closed Let_def)

lemma zip_map_filter: "map fst (filter snd (zip xs (map P xs))) = filter P xs"
  by (induction xs) auto

lemma removeStars_removeDoubleStars: "removeStars (removeDoubleStars s) = removeStars s"
  by (induction s rule: removeDoubleStars.induct) (auto simp: removeStars_def)

lemma cleanTextOf_alt: "cleanTextOf s = trim (filter (\<lambda>c. c \<noteq> 0x2A) s)"
  using removeStars_removeDoubleStars[of s] by (simp add: cleanTextOf_def removeStars_def)

lemma set_removeDoubleStars: "set (removeDoubleStars s) \<subseteq> set s"
  by (induction s rule: removeDoubleStars.induct) auto

lemma trim_all_white: "list_all isWhiteSpace s \<Longrightarrow> trim s = []"
proof -
  assume "list_all isWhiteSpace s"
  then have d: "dropWhile isWhiteSpace s = []"
    by (induction s) auto
  show ?thesis unfolding trim_def d by simp
qed

lemma cleanTextOf_blank:
  assumes "list_all (\<lambda>c. c = 0x2A \<or> isWhiteSpace c) s"
  shows "cleanTextOf s = []"
proof -
  have "list_all isWhiteSpace (filter (\<lambda>c. c \<noteq> 0x2A) s)"
    using assms by (auto simp: list_all_iff)
  then show ?thesis
    by (simp add: cleanTextOf_alt trim_all_white)
qed

lemma anchorOf_empty: "anchorOf ul [] = []"
  by (simp add: anchorOf_def toLowerCase_def)

lemma replaceNonWordRuns_chars:
  "list_all (\<lambda>c. isWordChar c \<or> c = 0x2D) (replaceNonWordRuns s)"
  by (induction s rule: replaceNonWordRuns.induct) auto

lemma anchorOf_no_quote: "0x22 \<notin> set (anchorOf ul s)"
proof
  assume "0x22 \<in> set (anchorOf ul s)"
  with replaceNonWordRuns_chars[of "toLowerCase ul s"]
  have "isWordChar 0x22 \<or> (0x22::16 word) = 0x2D"
    by (auto simp: anchorOf_def list_all_iff)
  then show False by (simp add: isWordChar_def)
qed

lemma foldl_append_concat: "foldl (\<lambda>acc x. acc @ g x) a xs = a @ concat (map g xs)"
  by (induction xs arbitrary: a) auto

lemma generateTocHtml_concat:
  \<open>generateTocHtml toc titleArg =
     js ''\<newline>    <div class="toc">\<newline>        <h1>'' @
     (case titleArg of None \<Rightarrow> js ''Table of Contents'' | Some t \<Rightarrow> t) @
     js ''</h1>\<newline>        <ul>\<newline>    '' @
     concat (map tocEntryHtml toc) @
     js ''</ul></div><div class="page-break"></div>''\<close>
  by (simp add: generateTocHtml_def foldl_append_concat Let_def)

lemma numberToString_digit:
  "numberToString 3 = js ''3''" "numberToString 4 = js ''4''" "numberToString 5 = js ''5''"
  by (simp_all add: numberToString_def digitsOf.simps js_def)

lemmas eval_defs =
  extractHeadings_def visitToken_def tocFilterOf_def maxDepthOf_def test_def
  defaultTocFilter_def startsWithIgnoreCase_def asciiLower_def cleanTextOf_def trim_def
  removeStars_def isWhiteSpace_def anchorOf_def toLowerCase_def isWordChar_def
  headingHtml_def numberToString_def digitsOf.simps js_def Let_def
  headingToken_def htmlToken_def paragraphToken_def

text \<open>
  Claim C4. For every token sequence, every filter object and every maximal depth, the
  call returns exactly this: every heading of depth at most the maximal depth is replaced
  by the anchored markup \<^verbatim>\<open><h{depth} id="{anchor}">{cleanText}</h{depth}>\<close> of kind
  \<^verbatim>\<open>html\<close>, every other token is kept, and neither depends on the filter. The filter
  decides only which of these headings are listed: the entries are those of the indexed
  headings for which \<^verbatim>\<open>test\<close>, asked in document order, answered true, in that order,
  each with the anchor, the depth and the cleaned text of its heading. For a filter
  without the \<^verbatim>\<open>g\<close> and \<^verbatim>\<open>y\<close> flags these are the indexed headings whose cleaned text
  the pattern matches.
\<close>

theorem extractHeadings_rewrite_independent_of_filter:
  \<open>extractHeadings ul tokens options =
     (let f = tocFilterOf options;
          md = maxDepthOf options;
          hs = filter (isIndexedHeading md) tokens;
          texts = map (cleanTextOf \<circ> tokenText) hs
      in (map (tocEntryOf ul \<circ> fst) (filter snd (zip hs (answers f texts))),
          map (\<lambda>t. if isIndexedHeading md t then anchoredMarkup ul t else t) tokens,
          filterAfter f texts)) \<and>
   (\<not> advancing (tocFilterOf options) \<longrightarrow>
      fst (extractHeadings ul tokens options) =
        map (tocEntryOf ul)
          (filter (\<lambda>t. isIndexedHeading (maxDepthOf options) t \<and>
                        search (tocFilterOf options) 0 (cleanTextOf (tokenText t)) \<noteq> None)
             tokens)) \<and>
   tokenText (anchoredMarkup ul t) =
     js ''<h'' @ numberToString (tokenDepth t) @ js '' id="'' @
     anchorOf ul (cleanTextOf (tokenText t)) @ js ''">'' @ cleanTextOf (tokenText t) @
     js ''</h'' @ numberToString (tokenDepth t) @ js ''>'' \<and>
   tokenType (anchoredMarkup ul t) = js ''html''\<close>
proof (intro conjI impI)
  show "extractHeadings ul tokens options =
     (let f = tocFilterOf options;
          md = maxDepthOf options;
          hs = filter (isIndexedHeading md) tokens;
          texts = map (cleanTextOf \<circ> tokenText) hs
      in (map (tocEntryOf ul \<circ> fst) (filter snd (zip hs (answers f texts))),
          map (\<lambda>t. if isIndexedHeading md t then anchoredMarkup ul t else t) tokens,
          filterAfter f texts))"
    by (rule extractHeadings_closed)
next
  let ?md = "maxDepthOf options" and ?f = "tocFilterOf options"
  let ?hs = "filter (isIndexedHeading ?md) tokens"
  let ?P = "\<lambda>t. search ?f 0 (cleanTextOf (tokenText t)) \<noteq> None"
  assume na: "\<not> advancing ?f"
  have "answers ?f (map (cleanTextOf \<circ> tokenText) ?hs) = map ?P ?hs"
    by (simp add: answers_plain[OF na])
  then have "fst (extractHeadings ul tokens options) =
      map (tocEntryOf ul \<circ> fst) (filter snd (zip ?hs (map ?P ?hs)))"
    by (simp add: extractHeadings_closed Let_def)
  also have "\<dots> = map (tocEntryOf ul) (map fst (filter snd (zip ?hs (map ?P ?hs))))"
    by simp
  also have "\<dots> = map (tocEntryOf ul) (filter ?P ?hs)"
    by (simp only: zip_map_filter)
  also have "filter ?P ?hs = filter (\<lambda>t. isIndexedHeading ?md t \<and> ?P t) tokens"
    by (simp add: conj_commute)
  finally show "fst (extractHeadings ul tokens options) =
      map (tocEntryOf ul) (filter (\<lambda>t. isIndexedHeading ?md t \<and> ?P t) tokens)" .
next
  show \<open>tokenText (anchoredMarkup ul t) =
     js ''<h'' @ numberToString (tokenDepth t) @ js '' id="'' @
     anchorOf ul (cleanTextOf (tokenText t)) @ js ''">'' @ cleanTextOf (tokenText t) @
     js ''</h'' @ numberToString (tokenDepth t) @ js ''>''\<close>
    by (simp add: anchoredMarkup_def headingHtml_def)
next
  show "tokenType (anchoredMarkup ul t) = js ''html''"
    by (simp add: anchoredMarkup_def)
qed

theorem extractHeadings_rewrite_independent_of_filter_witness:
  \<open>extractHeadings id
      [headingToken 2 (js ''Intro''), paragraphToken (js ''Some text.''),
       headingToken 3 (js ''Topic One'')]
      \<lparr> tocFilter = None, maxDepth = None \<rparr> =
     ([\<lparr> anchor = js ''topic-one'', level = 3, entryText = js ''Topic One'' \<rparr>],
      [htmlToken 2 (js ''<h2 id="intro">Intro</h2>''), paragraphToken (js ''Some text.''),
       htmlToken 3 (js ''<h3 id="topic-one">Topic One</h3>'')],
      defaultTocFilter)\<close>
proof -
  have na: "\<not> advancing (tocFilterOf \<lparr> tocFilter = None, maxDepth = None \<rparr>)"
    by (simp add: tocFilterOf_def defaultTocFilter_def)
  show ?thesis
    using extractHeadings_rewrite_independent_of_filter
      [of id "[headingToken 2 (js ''Intro''), paragraphToken (js ''Some text.''),
               headingToken 3 (js ''Topic One'')]"
          "\<lparr> tocFilter = None, maxDepth = None \<rparr>" "headingToken 2 (js ''Intro'')"] na
    by (simp add: eval_defs isIndexedHeading_def anchoredMarkup_def tocEntryOf_def)
qed

text \<open>
  Claim C6. The token sequence after the call has the length it had before, and at every
  position that holds a token that is no heading, or a heading deeper than the maximal
  depth, the token after the call is the token before the call.
\<close>

theorem extractHeadings_frame:
  "length (fst (snd (extractHeadings ul tokens options))) = length tokens \<and>
   (\<forall>i. i < length tokens \<and>
        (tokenType (tokens ! i) \<noteq> js ''heading'' \<or> maxDepthOf options < tokenDepth (tokens ! i))
        \<longrightarrow> fst (snd (extractHeadings ul tokens options)) ! i = tokens ! i)"
  by (auto simp: extractHeadings_closed Let_def isIndexedHeading_def)

theorem extractHeadings_frame_witness:
  "length (fst (snd (extractHeadings id
      [paragraphToken (js ''Some text.''), headingToken 5 (js ''Deep Topic''),
       headingToken 1 (js ''Title'')] \<lparr> tocFilter = None, maxDepth = None \<rparr>))) = 3 \<and>
   fst (snd (extractHeadings id
      [paragraphToken (js ''Some text.''), headingToken 5 (js ''Deep Topic''),
       headingToken 1 (js ''Title'')] \<lparr> tocFilter = None, maxDepth = None \<rparr>)) ! 0
     = paragraphToken (js ''Some text.'') \<and>
   fst (snd (extractHeadings id
      [paragraphToken (js ''Some text.''), headingToken 5 (js ''Deep Topic''),
       headingToken 1 (js ''Title'')] \<lparr> tocFilter = None, maxDepth = None \<rparr>)) ! 1
     = headingToken 5 (js ''Deep Topic'')"
proof -
  let ?ts = "[paragraphToken (js ''Some text.''), headingToken 5 (js ''Deep Topic''),
       headingToken 1 (js ''Title'')]"
  let ?o = "\<lparr> tocFilter = None, maxDepth = None \<rparr>"
  have a: "(0::nat) < length ?ts \<and> (tokenType (?ts ! 0) \<noteq> js ''heading'' \<or> maxDepthOf ?o < tokenDepth (?ts ! 0))"
    by (simp add: paragraphToken_def js_def)
  have b: "(1::nat) < length ?ts \<and> (tokenType (?ts ! 1) \<noteq> js ''heading'' \<or> maxDepthOf ?o < tokenDepth (?ts ! 1))"
    by (simp add: headingToken_def maxDepthOf_def)
  from extractHeadings_frame[of id ?ts ?o]
  have l: "length (fst (snd (extractHeadings id ?ts ?o))) = length ?ts"
    and f: "\<And>i. i < length ?ts \<and> (tokenType (?ts ! i) \<noteq> js ''heading'' \<or> maxDepthOf ?o < tokenDepth (?ts ! i))
        \<Longrightarrow> fst (snd (extractHeadings id ?ts ?o)) ! i = ?ts ! i"
    by blast+
  from l f[OF a] f[OF b] show ?thesis by simp
qed

text \<open>
  Claim C5. With the maximal depth 4 (\<^verbatim>\<open>convertMdToPdf\<close> passes no \<^verbatim>\<open>maxDepth\<close>, so the
  default 4 applies), a heading of depth 5 anywhere in the sequence stays as it is, adds
  no entry, and the filter is not asked about it: the call behaves as the call on the
  tokens before it followed by the call on the tokens after it. A heading of depth 4 is
  replaced by \<^verbatim>\<open><h4 id="{anchor}">{cleanText}</h4>\<close>, and the answer of the filter on its
  cleaned text decides whether its entry, of level 4, is listed at its place.
\<close>

theorem depth_boundary_at_four:
  assumes "maxDepthOf options = 4" and "tokenType t = js ''heading''"
  shows \<open>(tokenDepth t = 5 \<longrightarrow>
           extractHeadings ul (pre @ t # post) options =
             (case extractHeadings ul pre options of
                (toc1, pre', f1) \<Rightarrow>
                  (case extractHeadings ul post (options\<lparr>tocFilter := Some f1\<rparr>) of
                     (toc2, post', f2) \<Rightarrow> (toc1 @ toc2, pre' @ t # post', f2)))) \<and>
         (tokenDepth t = 4 \<longrightarrow>
           extractHeadings ul (pre @ t # post) options =
             (case extractHeadings ul pre options of
                (toc1, pre', f1) \<Rightarrow>
                  (case test f1 (cleanTextOf (tokenText t)) of
                     (isImportant, f1') \<Rightarrow>
                       (case extractHeadings ul post (options\<lparr>tocFilter := Some f1'\<rparr>) of
                          (toc2, post', f2) \<Rightarrow>
                            (toc1 @
                             (if isImportant
                              then [\<lparr> anchor = anchorOf ul (cleanTextOf (tokenText t)),
                                      level = 4,
                                      entryText = cleanTextOf (tokenText t) \<rparr>]
                              else []) @ toc2,
                             pre' @
                             t\<lparr> tokenType := js ''html'',
                                tokenText := js ''<h4 id="'' @
                                  anchorOf ul (cleanTextOf (tokenText t)) @ js ''">'' @
                                  cleanTextOf (tokenText t) @ js ''</h4>'' \<rparr> # post',
                             f2)))))\<close>
proof (intro conjI impI)
  assume "tokenDepth t = 5"
  with assms have "\<not> isIndexedHeading (maxDepthOf options) t"
    by (simp add: isIndexedHeading_def)
  then have "visitToken ul (maxDepthOf options) t [] f = (t, [], f)" for f
    by (rule visitToken_other)
  then show "extractHeadings ul (pre @ t # post) options =
             (case extractHeadings ul pre options of
                (toc1, pre', f1) \<Rightarrow>
                  (case extractHeadings ul post (options\<lparr>tocFilter := Some f1\<rparr>) of
                     (toc2, post', f2) \<Rightarrow> (toc1 @ toc2, pre' @ t # post', f2)))"
    by (simp add: extractHeadings_at split: prod.splits)
next
  assume d: "tokenDepth t = 4"
  with assms have "isIndexedHeading (maxDepthOf options) t"
    by (simp add: isIndexedHeading_def)
  then have "visitToken ul (maxDepthOf options) t [] f =
     (anchoredMarkup ul t,
      [] @ (if fst (test f (cleanTextOf (tokenText t))) then [tocEntryOf ul t] else []),
      snd (test f (cleanTextOf (tokenText t))))" for f
    by (rule visitToken_indexed)
  moreover have \<open>anchoredMarkup ul t =
      t\<lparr> tokenType := js ''html'',
         tokenText := js ''<h4 id="'' @ anchorOf ul (cleanTextOf (tokenText t)) @ js ''">'' @
                      cleanTextOf (tokenText t) @ js ''</h4>'' \<rparr>\<close>
    using d by (simp add: anchoredMarkup_def headingHtml_def numberToString_digit js_append[symmetric])
  moreover have "tocEntryOf ul t =
      \<lparr> anchor = anchorOf ul (cleanTextOf (tokenText t)), level = 4,
        entryText = cleanTextOf (tokenText t) \<rparr>"
    using d by (simp add: tocEntryOf_def)
  ultimately show \<open>extractHeadings ul (pre @ t # post) options =
             (case extractHeadings ul pre options of
                (toc1, pre', f1) \<Rightarrow>
                  (case test f1 (cleanTextOf (tokenText t)) of
                     (isImportant, f1') \<Rightarrow>
                       (case extractHeadings ul post (options\<lparr>tocFilter := Some f1'\<rparr>) of
                          (toc2, post', f2) \<Rightarrow>
                            (toc1 @
                             (if isImportant
                              then [\<lparr> anchor = anchorOf ul (cleanTextOf (tokenText t)),
                                      level = 4,
                                      entryText = cleanTextOf (tokenText t) \<rparr>]
                              else []) @ toc2,
                             pre' @
                             t\<lparr> tokenType := js ''html'',
                                tokenText := js ''<h4 id="'' @
                                  anchorOf ul (cleanTextOf (tokenText t)) @ js ''">'' @
                                  cleanTextOf (tokenText t) @ js ''</h4>'' \<rparr> # post',
                             f2))))\<close>
    by (simp add: extractHeadings_at split: prod.splits)
qed

theorem depth_boundary_at_four_witness:
  \<open>extractHeadings id [headingToken 5 (js ''Deep Topic'')]
      \<lparr> tocFilter = Some defaultTocFilter, maxDepth = None \<rparr>
     = ([], [headingToken 5 (js ''Deep Topic'')], defaultTocFilter) \<and>
   extractHeadings id [headingToken 4 (js ''Sub Topic'')]
      \<lparr> tocFilter = Some defaultTocFilter, maxDepth = None \<rparr>
     = ([\<lparr> anchor = js ''sub-topic'', level = 4, entryText = js ''Sub Topic'' \<rparr>],
        [htmlToken 4 (js ''<h4 id="sub-topic">Sub Topic</h4>'')], defaultTocFilter)\<close>
proof -
  let ?o = "\<lparr> tocFilter = Some defaultTocFilter, maxDepth = None \<rparr>"
  let ?t5 = "headingToken 5 (js ''Deep Topic'')"
  let ?t4 = "headingToken 4 (js ''Sub Topic'')"
  have m: "maxDepthOf ?o = 4" by (simp add: maxDepthOf_def)
  have h5: "tokenType ?t5 = js ''heading''" and d5: "tokenDepth ?t5 = 5"
    and h4: "tokenType ?t4 = js ''heading''" and d4: "tokenDepth ?t4 = 4"
    and tt: "tokenText ?t4 = js ''Sub Topic''"
    by (simp_all add: headingToken_def)
  have e: "extractHeadings id ([]::token list) ?o = ([], [], defaultTocFilter)"
    "extractHeadings id ([]::token list) (?o\<lparr>tocFilter := Some defaultTocFilter\<rparr>)
       = ([], [], defaultTocFilter)"
    by (simp_all add: extractHeadings_def tocFilterOf_def)
  have c: "cleanTextOf (js ''Sub Topic'') = js ''Sub Topic''"
    by (simp add: cleanTextOf_def trim_def removeStars_def isWhiteSpace_def js_def)
  have a: "anchorOf id (js ''Sub Topic'') = js ''sub-topic''"
    by (simp add: anchorOf_def toLowerCase_def asciiLower_def isWordChar_def js_def)
  have t: "test defaultTocFilter (js ''Sub Topic'') = (True, defaultTocFilter)"
    by (simp add: test_def defaultTocFilter_def startsWithIgnoreCase_def asciiLower_def js_def)
  have x: \<open>?t4\<lparr> tokenType := js ''html'',
        tokenText := js ''<h4 id="'' @ js ''sub-topic'' @ js ''">'' @ js ''Sub Topic'' @ js ''</h4>'' \<rparr>
     = htmlToken 4 (js ''<h4 id="sub-topic">Sub Topic</h4>'')\<close>
    by (simp add: headingToken_def htmlToken_def js_def)
  from depth_boundary_at_four[OF m h5, of id "[]" "[]"] d5 e
  have r5: "extractHeadings id [?t5] ?o = ([], [?t5], defaultTocFilter)"
    by simp
  from depth_boundary_at_four[OF m h4, of id "[]" "[]"] d4
  have r4: \<open>extractHeadings id [?t4] ?o
     = ([\<lparr> anchor = js ''sub-topic'', level = 4, entryText = js ''Sub Topic'' \<rparr>],
        [htmlToken 4 (js ''<h4 id="sub-topic">Sub Topic</h4>'')], defaultTocFilter)\<close>
    by (simp add: tt c a t e x)
  from r5 r4 show ?thesis by blast
qed

text \<open>
  Claim C7. The heading text \<^verbatim>\<open>**Q.1) Self-awareness**\<close> has the cleaned text
  \<^verbatim>\<open>Q.1) Self-awareness\<close> and the anchor \<^verbatim>\<open>q-1-self-awareness\<close>, and a heading of depth 3
  with this text becomes \<^verbatim>\<open><h3 id="q-1-self-awareness">Q.1) Self-awareness</h3>\<close>. For
  every text the cleaned text is the text with every asterisk deleted, trimmed.
\<close>

theorem emphasis_stripping_example:
  \<open>cleanTextOf (js ''**Q.1) Self-awareness**'') = js ''Q.1) Self-awareness'' \<and>
   anchorOf ul (js ''Q.1) Self-awareness'') = js ''q-1-self-awareness'' \<and>
   cleanTextOf s = trim (filter (\<lambda>c. c \<noteq> 0x2A) s) \<and>
   extractHeadings ul [headingToken 3 (js ''**Q.1) Self-awareness**'')]
       \<lparr> tocFilter = None, maxDepth = None \<rparr> =
     ([], [htmlToken 3 (js ''<h3 id="q-1-self-awareness">Q.1) Self-awareness</h3>'')],
      defaultTocFilter)\<close>
proof -
  have c: "cleanTextOf (js ''**Q.1) Self-awareness**'') = js ''Q.1) Self-awareness''"
    by (simp add: cleanTextOf_def trim_def removeStars_def isWhiteSpace_def js_def)
  have a: "anchorOf ul (js ''Q.1) Self-awareness'') = js ''q-1-self-awareness''"
    by (simp add: anchorOf_def toLowerCase_def asciiLower_def isWordChar_def js_def)
  have t: "test defaultTocFilter (js ''Q.1) Self-awareness'') = (False, defaultTocFilter)"
    by (simp add: test_def defaultTocFilter_def startsWithIgnoreCase_def asciiLower_def js_def)
  have h: \<open>headingHtml 3 (js ''q-1-self-awareness'') (js ''Q.1) Self-awareness'')
      = js ''<h3 id="q-1-self-awareness">Q.1) Self-awareness</h3>''\<close>
    by (simp add: headingHtml_def numberToString_digit js_append[symmetric])
  have e: \<open>extractHeadings ul [headingToken 3 (js ''**Q.1) Self-awareness**'')]
       \<lparr> tocFilter = None, maxDepth = None \<rparr> =
     ([], [htmlToken 3 (js ''<h3 id="q-1-self-awareness">Q.1) Self-awareness</h3>'')],
      defaultTocFilter)\<close>
    by (simp add: extractHeadings_def maxDepthOf_def tocFilterOf_def visitToken_def
        headingToken_def htmlToken_def c a t h)
  from c a e cleanTextOf_alt[of s] show ?thesis by blast
qed

section \<open>Properties of the table of contents\<close>

text \<open>
  Claim C8. The fragment is the titled opening, the list items of the entries in order,
  and the closing with the page break. The item of an entry of level above 3 has the
  class \<^verbatim>\<open>toc-indent\<close>, the item of any other entry has the empty class. For no
  entries the fragment is still the opening with the title, the empty list and the page
  break.
\<close>

theorem generateTocHtml_shape:
  \<open>generateTocHtml toc titleArg =
     js ''\<newline>    <div class="toc">\<newline>        <h1>'' @
     (case titleArg of None \<Rightarrow> js ''Table of Contents'' | Some t \<Rightarrow> t) @
     js ''</h1>\<newline>        <ul>\<newline>    '' @
     concat (map tocEntryHtml toc) @
     js ''</ul></div><div class="page-break"></div>'' \<and>
   (level e > 3 \<longrightarrow>
      tocEntryHtml e =
        js ''<li class="toc-indent"><a href="#'' @ anchor e @ js ''">'' @ entryText e @
        js ''</a></li>'') \<and>
   (level e \<le> 3 \<longrightarrow>
      tocEntryHtml e =
        js ''<li class=""><a href="#'' @ anchor e @ js ''">'' @ entryText e @
        js ''</a></li>'') \<and>
   generateTocHtml [] titleArg =
     js ''\<newline>    <div class="toc">\<newline>        <h1>'' @
     (case titleArg of None \<Rightarrow> js ''Table of Contents'' | Some t \<Rightarrow> t) @
     js ''</h1>\<newline>        <ul>\<newline>    </ul></div><div class="page-break"></div>''\<close>
proof (intro conjI impI)
  show \<open>generateTocHtml toc titleArg =
     js ''\<newline>    <div class="toc">\<newline>        <h1>'' @
     (case titleArg of None \<Rightarrow> js ''Table of Contents'' | Some t \<Rightarrow> t) @
     js ''</h1>\<newline>        <ul>\<newline>    '' @
     concat (map tocEntryHtml toc) @
     js ''</ul></div><div class="page-break"></div>''\<close>
    by (rule generateTocHtml_concat)
next
  assume "level e > 3"
  then show \<open>tocEntryHtml e =
        js ''<li class="toc-indent"><a href="#'' @ anchor e @ js ''">'' @ entryText e @
        js ''</a></li>''\<close>
    by (simp add: tocEntryHtml_def js_def)
next
  assume "level e \<le> 3"
  then show \<open>tocEntryHtml e =
        js ''<li class=""><a href="#'' @ anchor e @ js ''">'' @ entryText e @
        js ''</a></li>''\<close>
    by (simp add: tocEntryHtml_def js_def)
next
  show \<open>generateTocHtml [] titleArg =
     js ''\<newline>    <div class="toc">\<newline>        <h1>'' @
     (case titleArg of None \<Rightarrow> js ''Table of Contents'' | Some t \<Rightarrow> t) @
     js ''</h1>\<newline>        <ul>\<newline>    </ul></div><div class="page-break"></div>''\<close>
    by (simp add: generateTocHtml_concat js_def)
qed

theorem generateTocHtml_shape_witness:
  \<open>tocEntryHtml \<lparr> anchor = js ''a'', level = 4, entryText = js ''A'' \<rparr>
     = js ''<li class="toc-indent"><a href="#a">A</a></li>'' \<and>
   tocEntryHtml \<lparr> anchor = js ''b'', level = 3, entryText = js ''B'' \<rparr>
     = js ''<li class=""><a href="#b">B</a></li>'' \<and>
   generateTocHtml [] None =
     js ''\<newline>    <div class="toc">\<newline>        <h1>Table of Contents</h1>\<newline>        <ul>\<newline>    </ul></div><div class="page-break"></div>''\<close>
proof -
  have a: "level \<lparr> anchor = js ''a'', level = 4, entryText = js ''A'' \<rparr> > 3"
    and b: "level \<lparr> anchor = js ''b'', level = 3, entryText = js ''B'' \<rparr> \<le> 3"
    by simp_all
  show ?thesis
    using generateTocHtml_shape[of "[]" None "\<lparr> anchor = js ''a'', level = 4, entryText = js ''A'' \<rparr>"]
      generateTocHtml_shape[of "[]" None "\<lparr> anchor = js ''b'', level = 3, entryText = js ''B'' \<rparr>"]
      a b
    by (simp add: js_def)
qed

lemma tocEntryHtml_link:
  \<open>\<exists>p. tocEntryHtml e =
     p @ (js ''<a href="#'' @ anchor e @ js ''">'' @ entryText e @ js ''</a>'') @ js ''</li>''\<close>
proof -
  have \<open>tocEntryHtml e =
      (js ''<li class="'' @ (if level e > 3 then js ''toc-indent'' else []) @ js ''">'') @
      (js ''<a href="#'' @ anchor e @ js ''">'' @ entryText e @ js ''</a>'') @ js ''</li>''\<close>
    by (simp add: tocEntryHtml_def js_def)
  then show ?thesis by blast
qed

lemma toc_link_in_fragment:
  assumes "e \<in> set toc"
  shows \<open>sublist (js ''<a href="#'' @ anchor e @ js ''">'' @ entryText e @ js ''</a>'')
           (generateTocHtml toc titleArg)\<close>
proof -
  let ?link = \<open>js ''<a href="#'' @ anchor e @ js ''">'' @ entryText e @ js ''</a>''\<close>
  from assms obtain as bs where "toc = as @ e # bs"
    by (meson split_list)
  moreover obtain p where "tocEntryHtml e = p @ ?link @ js ''</li>''"
    using tocEntryHtml_link by blast
  ultimately have "\<exists>ps ss. generateTocHtml toc titleArg = ps @ ?link @ ss"
    by (simp add: generateTocHtml_concat) (metis append.assoc)
  then show ?thesis by (simp add: sublist_def)
qed

text \<open>
  Claim C9. For every entry the call returns there is a position of the token sequence
  that held a heading of the entry's level and holds, after the call, the markup
  \<^verbatim>\<open><h{level} id="{anchor}">{text}</h{level}>\<close> built from the entry's own anchor and
  text; the fragment rendered from the returned entries contains the link
  \<^verbatim>\<open><a href="#{anchor}">{text}</a>\<close> of that entry; and the anchor holds no double quote,
  so the \<^verbatim>\<open>id\<close> attribute is the anchor and nothing else.
\<close>

theorem toc_links_resolve:
  assumes "extractHeadings ul tokens options = (toc, tokens', f')" and "e \<in> set toc"
  shows \<open>(\<exists>i. i < length tokens \<and>
            tokenType (tokens ! i) = js ''heading'' \<and>
            tokenDepth (tokens ! i) = level e \<and>
            tokens' ! i =
              (tokens ! i)\<lparr> tokenType := js ''html'',
                             tokenText := js ''<h'' @ numberToString (level e) @ js '' id="'' @
                               anchor e @ js ''">'' @ entryText e @ js ''</h'' @
                               numberToString (level e) @ js ''>'' \<rparr>) \<and>
         sublist (js ''<a href="#'' @ anchor e @ js ''">'' @ entryText e @ js ''</a>'')
           (generateTocHtml toc titleArg) \<and>
         0x22 \<notin> set (anchor e)\<close>
proof -
  let ?md = "maxDepthOf options" and ?f = "tocFilterOf options"
  let ?hs = "filter (isIndexedHeading ?md) tokens"
  from assms(1) have toc: "toc = map (tocEntryOf ul \<circ> fst)
      (filter snd (zip ?hs (answers ?f (map (cleanTextOf \<circ> tokenText) ?hs))))"
    and tokens': "tokens' = map (\<lambda>t. if isIndexedHeading ?md t then anchoredMarkup ul t else t) tokens"
    by (simp_all add: extractHeadings_closed Let_def)
  from assms(2) toc obtain t v where "(t, v) \<in> set (zip ?hs (answers ?f (map (cleanTextOf \<circ> tokenText) ?hs)))"
      and e: "e = tocEntryOf ul t"
    by auto
  then have "t \<in> set ?hs" by (meson set_zip_leftD)
  then have t: "t \<in> set tokens" "isIndexedHeading ?md t" by simp_all
  then obtain i where i: "i < length tokens" "tokens ! i = t"
    by (meson in_set_conv_nth)
  have "tokens' ! i = anchoredMarkup ul t"
    using i t(2) tokens' by simp
  then have \<open>tokens' ! i =
      (tokens ! i)\<lparr> tokenType := js ''html'',
                     tokenText := js ''<h'' @ numberToString (level e) @ js '' id="'' @
                       anchor e @ js ''">'' @ entryText e @ js ''</h'' @
                       numberToString (level e) @ js ''>'' \<rparr>\<close>
    using i(2) e by (simp add: anchoredMarkup_def tocEntryOf_def headingHtml_def)
  moreover have "tokenType (tokens ! i) = js ''heading''" "tokenDepth (tokens ! i) = level e"
    using t(2) i(2) e by (simp_all add: isIndexedHeading_def tocEntryOf_def)
  moreover have "0x22 \<notin> set (anchor e)"
    using e anchorOf_no_quote by (simp add: tocEntryOf_def)
  ultimately show ?thesis
    using i(1) toc_link_in_fragment[OF assms(2)] by blast
qed

theorem toc_links_resolve_witness:
  \<open>(\<exists>i. i < length [paragraphToken (js ''Some text.''), headingToken 3 (js ''Topic One'')] \<and>
        fst (snd (extractHeadings id
           [paragraphToken (js ''Some text.''), headingToken 3 (js ''Topic One'')]
           \<lparr> tocFilter = None, maxDepth = None \<rparr>)) ! i =
        htmlToken 3 (js ''<h3 id="topic-one">Topic One</h3>'')) \<and>
   sublist (js ''<a href="#topic-one">Topic One</a>'')
     (generateTocHtml
        (fst (extractHeadings id
           [paragraphToken (js ''Some text.''), headingToken 3 (js ''Topic One'')]
           \<lparr> tocFilter = None, maxDepth = None \<rparr>)) None)\<close>
proof -
  let ?ts = "[paragraphToken (js ''Some text.''), headingToken 3 (js ''Topic One'')]"
  let ?o = "\<lparr> tocFilter = None, maxDepth = None \<rparr>"
  let ?e = "\<lparr> anchor = js ''topic-one'', level = 3, entryText = js ''Topic One'' \<rparr>"
  have c: "cleanTextOf (js ''Topic One'') = js ''Topic One''"
    by (simp add: cleanTextOf_def trim_def removeStars_def isWhiteSpace_def js_def)
  have a: "anchorOf id (js ''Topic One'') = js ''topic-one''"
    by (simp add: anchorOf_def toLowerCase_def asciiLower_def isWordChar_def js_def)
  have t: "test defaultTocFilter (js ''Topic One'') = (True, defaultTocFilter)"
    by (simp add: test_def defaultTocFilter_def startsWithIgnoreCase_def asciiLower_def js_def)
  have h: \<open>headingHtml 3 (js ''topic-one'') (js ''Topic One'') = js ''<h3 id="topic-one">Topic One</h3>''\<close>
    by (simp add: headingHtml_def numberToString_digit js_append[symmetric])
  have p: "tokenType (paragraphToken (js ''Some text.'')) \<noteq> js ''heading''"
    by (simp add: paragraphToken_def js_def)
  have x: \<open>extractHeadings id ?ts ?o =
      ([?e], [paragraphToken (js ''Some text.''),
              htmlToken 3 (js ''<h3 id="topic-one">Topic One</h3>'')],
       defaultTocFilter)\<close>
    using p by (simp add: extractHeadings_def maxDepthOf_def tocFilterOf_def visitToken_def
        headingToken_def htmlToken_def c a t h)
  have m: "?e \<in> set [?e]" by simp
  from toc_links_resolve[OF x m, of None] obtain i where
    i: "i < length ?ts"
    \<open>[paragraphToken (js ''Some text.''), htmlToken 3 (js ''<h3 id="topic-one">Topic One</h3>'')] ! i =
       (?ts ! i)\<lparr> tokenType := js ''html'',
                   tokenText := js ''<h'' @ numberToString (level ?e) @ js '' id="'' @
                               anchor ?e @ js ''">'' @ entryText ?e @ js ''</h'' @
                               numberToString (level ?e) @ js ''>'' \<rparr>\<close>
    and s: \<open>sublist (js ''<a href="#'' @ anchor ?e @ js ''">'' @ entryText ?e @ js ''</a>'')
           (generateTocHtml [?e] None)\<close>
    by blast
  from i(1) have "i = 0 \<or> i = 1" by auto
  then have "i = 1"
    using i(2) by (auto simp: paragraphToken_def htmlToken_def js_def)
  then have \<open>fst (snd (extractHeadings id ?ts ?o)) ! i =
      htmlToken 3 (js ''<h3 id="topic-one">Topic One</h3>'')\<close>
    by (simp add: x)
  moreover have \<open>sublist (js ''<a href="#topic-one">Topic One</a>'')
     (generateTocHtml (fst (extractHeadings id ?ts ?o)) None)\<close>
    using s by (simp add: x js_append[symmetric])
  ultimately show ?thesis using i(1) by blast
qed

text \<open>
  Claim C10. A heading of depth at most the maximal depth whose text holds only
  asterisks and white space has the empty cleaned text and the empty anchor. The call
  does not skip it: wherever it stands, it is replaced by \<^verbatim>\<open><h{depth} id=""></h{depth}>\<close>,
  and when the filter accepts the empty text an entry with the empty anchor is listed.
\<close>

theorem blank_heading_gets_empty_anchor:
  assumes "list_all (\<lambda>c. c = 0x2A \<or> isWhiteSpace c) (tokenText t)"
    and "tokenType t = js ''heading''"
    and "tokenDepth t \<le> maxDepthOf options"
  shows \<open>cleanTextOf (tokenText t) = [] \<and>
         anchorOf ul (cleanTextOf (tokenText t)) = [] \<and>
         extractHeadings ul (pre @ t # post) options =
           (case extractHeadings ul pre options of
              (toc1, pre', f1) \<Rightarrow>
                (case test f1 [] of
                   (isImportant, f1') \<Rightarrow>
                     (case extractHeadings ul post (options\<lparr>tocFilter := Some f1'\<rparr>) of
                        (toc2, post', f2) \<Rightarrow>
                          (toc1 @
                           (if isImportant
                            then [\<lparr> anchor = [], level = tokenDepth t, entryText = [] \<rparr>]
                            else []) @ toc2,
                           pre' @
                           t\<lparr> tokenType := js ''html'',
                              tokenText := js ''<h'' @ numberToString (tokenDepth t) @
                                js '' id=""></h'' @ numberToString (tokenDepth t) @ js ''>'' \<rparr> #
                           post',
                           f2))))\<close>
proof -
  have c: "cleanTextOf (tokenText t) = []"
    using assms(1) by (rule cleanTextOf_blank)
  have a: "anchorOf ul (cleanTextOf (tokenText t)) = []"
    by (simp add: c anchorOf_empty)
  have "isIndexedHeading (maxDepthOf options) t"
    using assms(2,3) by (simp add: isIndexedHeading_def)
  then have v: "visitToken ul (maxDepthOf options) t [] f =
     (anchoredMarkup ul t,
      [] @ (if fst (test f (cleanTextOf (tokenText t))) then [tocEntryOf ul t] else []),
      snd (test f (cleanTextOf (tokenText t))))" for f
    by (rule visitToken_indexed)
  have m: \<open>anchoredMarkup ul t =
      t\<lparr> tokenType := js ''html'',
         tokenText := js ''<h'' @ numberToString (tokenDepth t) @
           js '' id=""></h'' @ numberToString (tokenDepth t) @ js ''>'' \<rparr>\<close>
    by (simp add: anchoredMarkup_def headingHtml_def c anchorOf_empty js_def)
  have e: "tocEntryOf ul t = \<lparr> anchor = [], level = tokenDepth t, entryText = [] \<rparr>"
    by (simp add: tocEntryOf_def c anchorOf_empty)
  have \<open>extractHeadings ul (pre @ t # post) options =
           (case extractHeadings ul pre options of
              (toc1, pre', f1) \<Rightarrow>
                (case test f1 [] of
                   (isImportant, f1') \<Rightarrow>
                     (case extractHeadings ul post (options\<lparr>tocFilter := Some f1'\<rparr>) of
                        (toc2, post', f2) \<Rightarrow>
                          (toc1 @
                           (if isImportant
                            then [\<lparr> anchor = [], level = tokenDepth t, entryText = [] \<rparr>]
                            else []) @ toc2,
                           pre' @
                           t\<lparr> tokenType := js ''html'',
                              tokenText := js ''<h'' @ numberToString (tokenDepth t) @
                                js '' id=""></h'' @ numberToString (tokenDepth t) @ js ''>'' \<rparr> #
                           post',
                           f2))))\<close>
    unfolding extractHeadings_at v m e c by (simp split: prod.splits)
  with c a show ?thesis by blast
qed

theorem blank_heading_gets_empty_anchor_witness:
  \<open>cleanTextOf (js ''** **'') = [] \<and>
   extractHeadings id [headingToken 2 (js ''** **'')]
       \<lparr> tocFilter = Some matchAll, maxDepth = None \<rparr> =
     ([\<lparr> anchor = [], level = 2, entryText = [] \<rparr>],
      [htmlToken 2 (js ''<h2 id=""></h2>'')], matchAll)\<close>
proof -
  let ?t = "headingToken 2 (js ''** **'')"
  let ?o = "\<lparr> tocFilter = Some matchAll, maxDepth = None \<rparr>"
  have h1: "list_all (\<lambda>c. c = 0x2A \<or> isWhiteSpace c) (tokenText ?t)"
    by (simp add: headingToken_def js_def isWhiteSpace_def)
  have h2: "tokenType ?t = js ''heading''" and tt: "tokenText ?t = js ''** **''"
    and td: "tokenDepth ?t = 2"
    by (simp_all add: headingToken_def)
  have h3: "tokenDepth ?t \<le> maxDepthOf ?o"
    by (simp add: headingToken_def maxDepthOf_def)
  have e: "extractHeadings id ([]::token list) ?o = ([], [], matchAll)"
    "extractHeadings id ([]::token list) (?o\<lparr>tocFilter := Some matchAll\<rparr>) = ([], [], matchAll)"
    by (simp_all add: extractHeadings_def tocFilterOf_def)
  have t: "test matchAll [] = (True, matchAll)"
    by (simp add: test_def matchAll_def)
  have x: \<open>?t\<lparr> tokenType := js ''html'',
        tokenText := js ''<h'' @ numberToString 2 @ js '' id=""></h'' @ numberToString 2 @ js ''>'' \<rparr>
      = htmlToken 2 (js ''<h2 id=""></h2>'')\<close>
    by (simp add: headingToken_def htmlToken_def numberToString_def digitsOf.simps js_def)
  from blank_heading_gets_empty_anchor[OF h1 h2 h3, of id "[]" "[]"]
  show ?thesis
    by (simp add: tt td e t x)
qed

section \<open>Properties of the conversion\<close>

text \<open>
  Claim C1, at an input where the code does otherwise. The file exists, a browser is
  found, the file is read and tokenized, and the option \<^verbatim>\<open>tocFilter\<close> is the text
  \<^verbatim>\<open>(\<close>. The \<^verbatim>\<open>RegExp\<close> constructor throws, the call stands before the \<^verbatim>\<open>try\<close> block,
  and the promise of \<^verbatim>\<open>convertMdToPdf\<close> is rejected with that exception: no result
  object is returned.
\<close>

theorem convertMdToPdf_invalid_filter_rejects:
  "convertMdToPdf exampleHost exampleStyles (js ''notes.md'') (js ''notes.pdf'')
     (noOptions\<lparr> tocFilterSource := Some (js ''('') \<rparr>)
   = Inl (Error (js ''Invalid regular expression: /(/: Unterminated group''))"
  by (simp add: convertMdToPdf_def exampleHost_def noOptions_def orDefault_def
      findChromePath_def js_def)

lemma convertMdToPdf_example_succeeds:
  \<open>convertMdToPdf exampleHost exampleStyles (js ''notes.md'') (js ''notes.pdf'') noOptions
   = Inr \<lparr> success = True, message = js ''PDF generated successfully: "notes.pdf"'',
           outputPath = Some (js ''/work/notes.pdf'') \<rparr>\<close>
  by (simp add: convertMdToPdf_def exampleHost_def noOptions_def orDefault_def
      findChromePath_def generatePdf_def js_def split: prod.splits)

lemma convertMdToPdf_read_error_propagates:
  assumes "existsSync h (resolve h inputFile)"
    and "chromePath options = Some p" and "p \<noteq> []"
    and "readFileSync h (resolve h inputFile) = Inl e"
  shows "convertMdToPdf h st inputFile outputFile options = Inl e"
  using assms by (simp add: convertMdToPdf_def Let_def)

lemma convertMdToPdf_pdf_error_caught:
  assumes "existsSync h (resolve h inputFile)"
    and "chromePath options = Some p" and "p \<noteq> []"
    and "readFileSync h (resolve h inputFile) = Inr raw"
    and "lexer h (cleanMarkdownContent raw) = Inr tokens"
    and "newRegExp h (orDefault (tocFilterSource options) (js ''Topic|Summary|Section|Detailed'')) = Inr r"
    and "parser h (fst (snd (extractHeadings (unicodeLower h) tokens
           \<lparr> tocFilter = Some r, maxDepth = None \<rparr>))) = Inr body"
    and "\<And>html opts. generatePdf h p html opts = Inl e"
  shows "convertMdToPdf h st inputFile outputFile options =
     Inr \<lparr> success = False, message = js ''PDF generation failed: '' @ errorMessage e,
           outputPath = None \<rparr>"
proof -
  obtain toc tokens' f where x: "extractHeadings (unicodeLower h) tokens
      \<lparr> tocFilter = Some r, maxDepth = None \<rparr> = (toc, tokens', f)"
    by (cases "extractHeadings (unicodeLower h) tokens \<lparr> tocFilter = Some r, maxDepth = None \<rparr>")
  with assms(7) have b: "parser h tokens' = Inr body" by simp
  show ?thesis
    using assms(1-6,8) x b by (simp add: convertMdToPdf_def Let_def)
qed

end
